theory Spec2Isabelle
  imports Complex_Main "HOL-Library.Word" "HOL-Library.Multiset"
begin

section \<open>Data model\<close>

text \<open>
  The C++ sources work on \<^verbatim>\<open>double\<close> values (\<^verbatim>\<open>IloNum\<close>). They are modelled as
  mathematical reals: every comparison and every arithmetic expression of the code is
  kept as written, rounding is not modelled. The two sentinels of \<^verbatim>\<open>add_entry\<close>,
  \<^verbatim>\<open>std::numeric_limits<double>::max()\<close> and its negation, are the constant
  \<open>DBL_MAX\<close>; a real \<open>x\<close> stands for a finite double when \<open>\<bar>x\<bar> \<le> DBL_MAX\<close>.
  Ages are \<^verbatim>\<open>unsigned long long\<close>, modelled as 64-bit words (decrement wraps).
  Reads and writes outside an array are undefined in C++; the model returns the
  error \<open>OutOfRange\<close> there, \<open>DivisionByZero\<close> for an integer remainder by zero and
  \<open>CastOutOfRange\<close> for the conversion of a negative \<^verbatim>\<open>double\<close> to \<^verbatim>\<open>std::size_t\<close>.
  Loop counters and sizes are natural numbers: the code counts them upward from zero
  in 64-bit integers, which do not overflow in a run that ends.
\<close>

datatype error = OutOfRange | DivisionByZero | CastOutOfRange

datatype Sense = Minimize | Maximize

definition DBL_MAX :: real where
  "DBL_MAX = (2 - 1 / 2 ^ 52) * 2 ^ 1023"

definition finite_double :: "real \<Rightarrow> bool" where
  "finite_double x = (\<bar>x\<bar> \<le> DBL_MAX)"

definition SIMILARITY_THRESHOLD :: real where
  "SIMILARITY_THRESHOLD = 1 / 100000"

definition THRESHOLD :: real where
  "THRESHOLD = 1 / 100000"

record Entry =
  entry_solution :: "real list"
  entry_value :: real
  entry_age :: "64 word"

record SolutionPool =
  pool_sense :: Sense
  pool_max_size :: nat
  pool_sorted :: bool
  next_age :: "64 word"
  entries :: "Entry list"

section \<open>SolutionPool (solution\_pool.cpp)\<close>

text \<open>The constructor: an empty pool whose age counter starts at the largest value.\<close>

definition new_pool :: "Sense \<Rightarrow> nat \<Rightarrow> bool \<Rightarrow> SolutionPool" where
  "new_pool sn m srt =
     \<lparr>pool_sense = sn, pool_max_size = m, pool_sorted = srt, next_age = - 1, entries = []\<rparr>"

text \<open>
  The inner loop of \<^verbatim>\<open>add_entry\<close>: \<open>j\<close> runs over the coordinates of the candidate,
  and the loop stops with \<open>equal = false\<close> at the first coordinate whose distance exceeds
  the threshold. The entry's array is read at the same index, so an entry shorter than
  the candidate is read out of range unless the loop stopped before.
\<close>

fun check_similarity :: "real list \<Rightarrow> real list \<Rightarrow> error + bool" where
  "check_similarity [] es = Inr True"
| "check_similarity (s # ss) [] = Inl OutOfRange"
| "check_similarity (s # ss) (e # es) =
     (if \<bar>s - e\<bar> > SIMILARITY_THRESHOLD then Inr False else check_similarity ss es)"

text \<open>The comparison that tracks the worst entry, and the one that admits a candidate
  into a full pool.\<close>

definition is_worse :: "Sense \<Rightarrow> real \<Rightarrow> real \<Rightarrow> bool" where
  "is_worse sn v worst_val = (if sn = Minimize then v > worst_val else v < worst_val)"

definition is_better :: "Sense \<Rightarrow> real \<Rightarrow> real \<Rightarrow> bool" where
  "is_better sn v worst_val = (if sn = Minimize then v < worst_val else v > worst_val)"

definition worst_init :: "Sense \<Rightarrow> real" where
  "worst_init sn = (if sn = Minimize then - DBL_MAX else DBL_MAX)"

text \<open>
  The outer loop: entry \<open>i\<close> is first tested for similarity (\<open>None\<close> is the early
  \<^verbatim>\<open>return false\<close>), then compared with the worst value seen so far.
\<close>

fun scan_pool ::
  "Sense \<Rightarrow> real list \<Rightarrow> Entry list \<Rightarrow> nat \<Rightarrow> nat \<times> real \<Rightarrow> error + (nat \<times> real) option" where
  "scan_pool sn sol [] i w = Inr (Some w)"
| "scan_pool sn sol (e # es) i w =
     (case check_similarity sol (entry_solution e) of
        Inl err \<Rightarrow> Inl err
      | Inr True \<Rightarrow> Inr None
      | Inr False \<Rightarrow>
          scan_pool sn sol es (Suc i)
            (if is_worse sn (entry_value e) (snd w) then (i, entry_value e) else w))"

text \<open>
  The comparator handed to \<^verbatim>\<open>std::sort\<close>. \<^verbatim>\<open>std::sort\<close> itself is library code; it is
  modelled by the insertion sort that libstdc++ runs on ranges of up to 16 elements:
  an element smaller than the first one moves to the front, any other element walks
  backwards from its position while it is smaller than its predecessor.
\<close>

definition entry_less :: "Sense \<Rightarrow> Entry \<Rightarrow> Entry \<Rightarrow> bool" where
  "entry_less sn entry1 entry2 =
     (if \<bar>entry_value entry1 - entry_value entry2\<bar> < SIMILARITY_THRESHOLD
      then entry_age entry1 < entry_age entry2
      else if sn = Minimize then entry_value entry1 < entry_value entry2
      else entry_value entry1 > entry_value entry2)"

text \<open>\<open>unguarded_linear_insert\<close> works on the reversed prefix (nearest element first).\<close>

fun unguarded_linear_insert :: "('a \<Rightarrow> 'a \<Rightarrow> bool) \<Rightarrow> 'a \<Rightarrow> 'a list \<Rightarrow> 'a list" where
  "unguarded_linear_insert cmp v [] = [v]"
| "unguarded_linear_insert cmp v (p # ps) =
     (if cmp v p then p # unguarded_linear_insert cmp v ps else v # p # ps)"

definition insertion_step :: "('a \<Rightarrow> 'a \<Rightarrow> bool) \<Rightarrow> 'a list \<Rightarrow> 'a \<Rightarrow> 'a list" where
  "insertion_step cmp prefix v =
     (case prefix of
        [] \<Rightarrow> [v]
      | first # _ \<Rightarrow>
          if cmp v first then v # prefix
          else rev (unguarded_linear_insert cmp v (rev prefix)))"

definition std_sort :: "('a \<Rightarrow> 'a \<Rightarrow> bool) \<Rightarrow> 'a list \<Rightarrow> 'a list" where
  "std_sort cmp xs = foldl (insertion_step cmp) [] xs"

text \<open>
  Overwriting the slot \<open>worst_idx\<close>: value and age are replaced, and the candidate is
  copied coordinate by coordinate into the slot's array, which keeps its own length.
\<close>

definition overwrite_solution :: "real list \<Rightarrow> real list \<Rightarrow> error + real list" where
  "overwrite_solution old sol =
     (if length sol \<le> length old then Inr (sol @ drop (length sol) old) else Inl OutOfRange)"

definition replace_entry ::
  "Entry list \<Rightarrow> nat \<Rightarrow> real list \<Rightarrow> real \<Rightarrow> 64 word \<Rightarrow> error + Entry list" where
  "replace_entry es worst_idx sol v ag =
     (if worst_idx < length es then
        (case overwrite_solution (entry_solution (es ! worst_idx)) sol of
           Inl err \<Rightarrow> Inl err
         | Inr s \<Rightarrow>
             Inr (es[worst_idx := \<lparr>entry_solution = s, entry_value = v, entry_age = ag\<rparr>]))
      else Inl OutOfRange)"

text \<open>The tail of \<^verbatim>\<open>add_entry\<close> after a successful insertion: sort, then decrement.\<close>

definition finish_insert :: "SolutionPool \<Rightarrow> Entry list \<Rightarrow> SolutionPool" where
  "finish_insert p es =
     p\<lparr>entries := (if pool_sorted p then std_sort (entry_less (pool_sense p)) es else es),
       next_age := next_age p - 1\<rparr>"

definition add_entry :: "SolutionPool \<Rightarrow> real list \<Rightarrow> real \<Rightarrow> error + (bool \<times> SolutionPool)" where
  "add_entry p sol v =
     (case scan_pool (pool_sense p) sol (entries p) 0 (0, worst_init (pool_sense p)) of
        Inl err \<Rightarrow> Inl err
      | Inr None \<Rightarrow> Inr (False, p)
      | Inr (Some (worst_idx, worst_val)) \<Rightarrow>
          if length (entries p) < pool_max_size p then
            Inr (True, finish_insert p
              (entries p @ [\<lparr>entry_solution = sol, entry_value = v, entry_age = next_age p\<rparr>]))
          else if is_better (pool_sense p) v worst_val then
            (case replace_entry (entries p) worst_idx sol v (next_age p) of
               Inl err \<Rightarrow> Inl err
             | Inr es \<Rightarrow> Inr (True, finish_insert p es))
          else Inr (False, p))"

text \<open>A sequence of \<^verbatim>\<open>add_entry\<close> calls, each on the pool the previous one left.\<close>

fun add_entries :: "SolutionPool \<Rightarrow> (real list \<times> real) list \<Rightarrow> error + SolutionPool" where
  "add_entries p [] = Inr p"
| "add_entries p ((sol, v) # cs) =
     (case add_entry p sol v of Inl err \<Rightarrow> Inl err | Inr (b, p') \<Rightarrow> add_entries p' cs)"

section \<open>Predicates used to state the properties of the pool\<close>

text \<open>
  Similarity as the specification words it: every coordinate of the candidate is closer
  than \<open>10\<^sup>-\<^sup>5\<close> to the entry's coordinate.
\<close>

definition spec_similar :: "real list \<Rightarrow> real list \<Rightarrow> bool" where
  "spec_similar sol es = (\<forall>j<length sol. \<bar>sol ! j - es ! j\<bar> < 1 / 100000)"

text \<open>What the scan of \<^verbatim>\<open>add_entry\<close> tests: some coordinate is farther than the threshold.\<close>

definition differs :: "real list \<Rightarrow> real list \<Rightarrow> bool" where
  "differs sol es = (\<exists>j<length sol. \<bar>sol ! j - es ! j\<bar> > SIMILARITY_THRESHOLD)"

text \<open>Every stored solution has one value per variable, as the candidate has.\<close>

definition same_dimension :: "SolutionPool \<Rightarrow> real list \<Rightarrow> bool" where
  "same_dimension p sol = (\<forall>e\<in>set (entries p). length (entry_solution e) = length sol)"

definition worst_value :: "Sense \<Rightarrow> Entry list \<Rightarrow> real" where
  "worst_value sn es =
     (if sn = Minimize then Max (set (map entry_value es)) else Min (set (map entry_value es)))"

text \<open>
  The age keys of the stored entries are pairwise different and all above the counter:
  this holds for a new pool and is kept by \<^verbatim>\<open>add_entry\<close> until the counter reaches zero.
\<close>

definition ages_fresh :: "SolutionPool \<Rightarrow> bool" where
  "ages_fresh p =
     (distinct (map entry_age (entries p)) \<and> (\<forall>e\<in>set (entries p). next_age p < entry_age e))"


section \<open>AbortCallback (abort\_callback.cpp)\<close>

text \<open>
  The members of the callback object. \<open>timer_set\<close> says that the timer pointer is not
  null. The node counts are 64-bit: \<^verbatim>\<open>getNnodes64()\<close> is signed and the two limits are
  unsigned, so C++ compares them as unsigned numbers, which is the order of words.
\<close>

record AbortCallback =
  timer_set :: bool
  time_limit :: real
  nodes_limit :: "64 word"
  nodes_unsuccessful :: "64 word"
  initialized :: bool
  aborted :: bool
  obj_last_incumbent :: real
  nodes_last_incumbent :: "64 word"

text \<open>
  The constructor leaves \<^verbatim>\<open>obj_last_incumbent_\<close> and \<^verbatim>\<open>nodes_last_incumbent_\<close> without a
  value; \<^verbatim>\<open>main\<close> writes both before it reads them, and the model starts them at zero.
\<close>

definition create_instance :: "bool \<Rightarrow> real \<Rightarrow> 64 word \<Rightarrow> 64 word \<Rightarrow> AbortCallback" where
  "create_instance has_timer tlimit nl nu =
     \<lparr>timer_set = has_timer, time_limit = tlimit, nodes_limit = nl, nodes_unsuccessful = nu,
      initialized = False, aborted = False, obj_last_incumbent = 0, nodes_last_incumbent = 0\<rparr>"

text \<open>
  One invocation of \<^verbatim>\<open>main\<close>. The inputs are what the solver answers during the call:
  the elapsed seconds read from the timer, the node count and the incumbent objective.
  The result is the object after the call and whether \<^verbatim>\<open>abort()\<close> was called.
\<close>

definition AbortCallback_main ::
  "AbortCallback \<Rightarrow> real \<Rightarrow> 64 word \<Rightarrow> real \<Rightarrow> AbortCallback \<times> bool" where
  "AbortCallback_main cb elapsed nnodes obj_current_incumbent =
     (if aborted cb then (cb, False)
      else if timer_set cb \<and> elapsed \<ge> time_limit cb then (cb\<lparr>aborted := True\<rparr>, True)
      else if nnodes \<ge> nodes_limit cb then (cb\<lparr>aborted := True\<rparr>, True)
      else if \<not> initialized cb then
        (cb\<lparr>initialized := True, obj_last_incumbent := obj_current_incumbent,
            nodes_last_incumbent := nnodes\<rparr>, False)
      else if obj_last_incumbent cb - obj_current_incumbent > 1 / 100000 then
        (cb\<lparr>obj_last_incumbent := obj_current_incumbent, nodes_last_incumbent := nnodes\<rparr>, False)
      else if nnodes - nodes_last_incumbent cb > nodes_unsuccessful cb then
        (cb\<lparr>aborted := True\<rparr>, True)
      else (cb, False))"

text \<open>The callback over the successive calls of one solve; the flag says whether any
  call aborted.\<close>

fun AbortCallback_calls ::
  "AbortCallback \<Rightarrow> (real \<times> 64 word \<times> real) list \<Rightarrow> AbortCallback \<times> bool" where
  "AbortCallback_calls cb [] = (cb, False)"
| "AbortCallback_calls cb ((elapsed, nnodes, obj) # cs) =
     (case AbortCallback_main cb elapsed nnodes obj of
        (cb', fired) \<Rightarrow>
          (case AbortCallback_calls cb' cs of (cb'', later) \<Rightarrow> (cb'', fired \<or> later)))"

section \<open>The heuristics: shared parts\<close>

text \<open>
  The subordinate solver, the timer and the random number generator are outside the
  sources. What they answer is an input of the model, and what the code hands to the
  solver for one solve is recorded as a \<open>SubmipRequest\<close>: the bounds of the sub-MIP
  variables, the MIP start added for this solve (between \<^verbatim>\<open>clear\<close> and \<^verbatim>\<open>solve\<close>), and the
  abort callback installed.
\<close>

datatype Status = Unknown | Feasible | Optimal | Infeasible | Unbounded | InfeasibleOrUnbounded | Error

record SubmipResult =
  submip_found_solution :: bool
  submip_status :: Status
  submip_obj_value :: real
  submip_values :: "real list"

record SubmipRequest =
  req_bounds :: "(real \<times> real) list"
  req_mip_start :: "real list option"
  req_abort :: AbortCallback

record Incumbent =
  incumbent_objective :: real
  incumbent_solution :: "real list"

definition bind_err :: "error + 'a \<Rightarrow> ('a \<Rightarrow> error + 'b) \<Rightarrow> error + 'b" where
  "bind_err m f = (case m of Inl e \<Rightarrow> Inl e | Inr x \<Rightarrow> f x)"

definition checked_mod :: "nat \<Rightarrow> nat \<Rightarrow> error + nat" where
  "checked_mod a b = (if b = 0 then Inl DivisionByZero else Inr (a mod b))"

definition nth_err :: "'a list \<Rightarrow> nat \<Rightarrow> error + 'a" where
  "nth_err xs i = (if i < length xs then Inr (xs ! i) else Inl OutOfRange)"

definition set_bounds :: "(real \<times> real) list \<Rightarrow> nat \<Rightarrow> real \<times> real \<Rightarrow> error + (real \<times> real) list" where
  "set_bounds sb index b = (if index < length sb then Inr (sb[index := b]) else Inl OutOfRange)"

text \<open>\<^verbatim>\<open>(x > 0.5 ? 1.0 : 0.0)\<close>\<close>

definition rounded :: "real \<Rightarrow> real" where
  "rounded x = (if x > 1 / 2 then 1 else 0)"

text \<open>The stop criterion at the head of every loop body.\<close>

definition time_is_up :: "bool \<Rightarrow> real \<Rightarrow> real \<Rightarrow> bool" where
  "time_is_up has_timer clock tlimit = (has_timer \<and> clock \<ge> tlimit)"

text \<open>
  The test that adopts a sub-MIP solution as the new incumbent; the same lines stand
  in the mutation loop, in the recombination loop and in Maravilha's loop.
\<close>

definition improves :: "Sense \<Rightarrow> real \<Rightarrow> real \<Rightarrow> bool" where
  "improves sn current_value incumbent_obj =
     ((sn = Minimize \<and> current_value < incumbent_obj - THRESHOLD) \<or>
      (sn = Maximize \<and> current_value > incumbent_obj + THRESHOLD))"

text \<open>The copy loop runs over the indices of the incumbent array.\<close>

definition copy_solution :: "real list \<Rightarrow> real list \<Rightarrow> error + real list" where
  "copy_solution dst src =
     (if length dst \<le> length src then Inr (take (length dst) src) else Inl OutOfRange)"

definition update_incumbent :: "Sense \<Rightarrow> Incumbent \<Rightarrow> SubmipResult \<Rightarrow> error + (Incumbent \<times> bool)" where
  "update_incumbent sn inc res =
     (if improves sn (submip_obj_value res) (incumbent_objective inc) then
        bind_err (copy_solution (incumbent_solution inc) (submip_values res))
          (\<lambda>sol. Inr (\<lparr>incumbent_objective = submip_obj_value res, incumbent_solution = sol\<rparr>, True))
      else Inr (inc, False))"

text \<open>What follows a solve: nothing when no solution was found, else the solution goes
  to the pool (the answer of \<^verbatim>\<open>add_entry\<close> is dropped) and is compared with the incumbent.\<close>

definition harvest ::
  "Sense \<Rightarrow> SolutionPool \<Rightarrow> Incumbent \<Rightarrow> SubmipResult \<Rightarrow> error + (SolutionPool \<times> Incumbent \<times> bool)" where
  "harvest sn pl inc res =
     (if submip_found_solution res then
        bind_err (add_entry pl (submip_values res) (submip_obj_value res))
          (\<lambda>(inserted, pl').
             bind_err (update_incumbent sn inc res) (\<lambda>(inc', improved). Inr (pl', inc', improved)))
      else Inr (pl, inc, False))"

section \<open>Rothberg (rothberg.cpp)\<close>

record Rothberg =
  rothberg_pool :: SolutionPool
  problem_bounds :: "(real \<times> real) list"
  submip_bounds :: "(real \<times> real) list"
  rothberg_sense :: Sense
  binary_variables :: "nat list"
  num_recombinations :: nat
  num_mutations :: nat
  fixing_fraction :: real
  rothberg_offset :: real
  offset_reduction :: real
  offset_minimum :: real
  rothberg_nodes_unsuccessful :: "64 word"

text \<open>
  The inputs of one mutation iteration: the clock read by the stop criterion, the two
  numbers drawn from the generator, the order in which \<^verbatim>\<open>std::shuffle\<close> leaves the binary
  variables, and the answer of the solver. The inputs of one recombination iteration
  are alike, and a run has the incumbent read at its start and the number drawn for
  the consensus iteration besides.
\<close>

record MutationInput =
  mut_clock :: real
  mut_rand1 :: nat
  mut_rand2 :: nat
  mut_shuffle :: "nat list"
  mut_result :: SubmipResult

record RecombinationInput =
  rec_clock :: real
  rec_rand1 :: nat
  rec_rand2 :: nat
  rec_result :: SubmipResult

record RothbergInput =
  in_has_timer :: bool
  in_time_limit :: real
  in_incumbent :: Incumbent
  in_mutation :: "nat \<Rightarrow> MutationInput"
  in_consider_all :: nat
  in_recombination :: "nat \<Rightarrow> RecombinationInput"

text \<open>\<^verbatim>\<open>std::round\<close> rounds halves away from zero; the cast to \<^verbatim>\<open>std::size_t\<close> is defined
  for values that are not negative.\<close>

definition std_round :: "real \<Rightarrow> int" where
  "std_round x = (if 0 \<le> x then \<lfloor>x + 1 / 2\<rfloor> else \<lceil>x - 1 / 2\<rceil>)"

definition count_fixed_variables :: "Rothberg \<Rightarrow> error + nat" where
  "count_fixed_variables r =
     (let c = std_round (real (length (binary_variables r)) * fixing_fraction r)
      in if c < 0 then Inl CastOutOfRange else Inr (nat c))"

text \<open>The loop that fixes the first \<open>count\<close> shuffled variables to the seed's rounded value
  and gives the others the bounds of the original problem.\<close>

fun build_mutation ::
  "real list \<Rightarrow> (real \<times> real) list \<Rightarrow> nat \<Rightarrow> nat list \<Rightarrow> nat \<Rightarrow> (real \<times> real) list \<Rightarrow>
   error + (real \<times> real) list" where
  "build_mutation sol pb count_fixed [] j sb = Inr sb"
| "build_mutation sol pb count_fixed (index # rest) j sb =
     bind_err
       (if j < count_fixed then
          bind_err (nth_err sol index) (\<lambda>x. set_bounds sb index (rounded x, rounded x))
        else bind_err (nth_err pb index) (set_bounds sb index))
       (build_mutation sol pb count_fixed rest (Suc j))"

definition select_seed :: "nat \<Rightarrow> nat \<Rightarrow> nat \<Rightarrow> error + nat" where
  "select_seed pool_size r1 r2 =
     bind_err (checked_mod r1 pool_size)
       (\<lambda>idx. if idx \<noteq> 0 then checked_mod r2 idx else Inr idx)"

definition adapt_fixing_fraction :: "Rothberg \<Rightarrow> bool \<Rightarrow> Status \<Rightarrow> Rothberg" where
  "adapt_fixing_fraction r submip_has_improved st =
     (if \<not> submip_has_improved then
        (if st = Optimal \<or> st = Infeasible
         then r\<lparr>fixing_fraction := max 0 (fixing_fraction r - rothberg_offset r)\<rparr>
         else r\<lparr>fixing_fraction := min 1 (fixing_fraction r + rothberg_offset r)\<rparr>)
      else r)"

text \<open>The abort callback both phases install: the timer and time limit of the run, no
  node limit, and \<^verbatim>\<open>submip_nodes_unsuccessful_\<close> as the stagnation limit.\<close>

definition submip_abort :: "bool \<Rightarrow> real \<Rightarrow> 64 word \<Rightarrow> AbortCallback" where
  "submip_abort has_timer tlimit nu = create_instance has_timer tlimit (- 1) nu"

text \<open>The body of the mutation loop after the stop criterion. No MIP start is added.\<close>

definition mutation_iteration ::
  "bool \<Rightarrow> real \<Rightarrow> MutationInput \<Rightarrow> Rothberg \<Rightarrow> Incumbent \<Rightarrow>
   error + (Rothberg \<times> Incumbent \<times> SubmipRequest)" where
  "mutation_iteration has_timer tlimit e r inc =
     bind_err (select_seed (length (entries (rothberg_pool r))) (mut_rand1 e) (mut_rand2 e)) (\<lambda>idx.
     bind_err (nth_err (entries (rothberg_pool r)) idx) (\<lambda>entry.
     bind_err (count_fixed_variables r) (\<lambda>count_fixed.
     bind_err (build_mutation (entry_solution entry) (problem_bounds r) count_fixed
                 (mut_shuffle e) 0 (submip_bounds r)) (\<lambda>sb.
     bind_err (harvest (rothberg_sense r) (rothberg_pool r) inc (mut_result e))
       (\<lambda>(pl, inc', submip_has_improved).
          Inr (adapt_fixing_fraction
                 (r\<lparr>binary_variables := mut_shuffle e, submip_bounds := sb, rothberg_pool := pl\<rparr>)
                 submip_has_improved (submip_status (mut_result e)),
               inc',
               \<lparr>req_bounds = sb, req_mip_start = None,
                req_abort = submip_abort has_timer tlimit (rothberg_nodes_unsuccessful r)\<rparr>))))))"

text \<open>The mutation loop: \<open>k\<close> iterations remain, \<open>i\<close> is the loop counter.\<close>

fun mutations ::
  "RothbergInput \<Rightarrow> nat \<Rightarrow> nat \<Rightarrow> Rothberg \<times> Incumbent \<times> SubmipRequest list \<Rightarrow>
   error + (Rothberg \<times> Incumbent \<times> SubmipRequest list)" where
  "mutations env 0 i s = Inr s"
| "mutations env (Suc k) i (r, inc, trace) =
     (if time_is_up (in_has_timer env) (mut_clock (in_mutation env i)) (in_time_limit env)
      then Inr (r, inc, trace)
      else bind_err
        (mutation_iteration (in_has_timer env) (in_time_limit env) (in_mutation env i) r inc)
        (\<lambda>(r', inc', rq). mutations env k (Suc i) (r', inc', trace @ [rq])))"

definition update_offset :: "Rothberg \<Rightarrow> Rothberg" where
  "update_offset r =
     r\<lparr>rothberg_offset :=
         max (offset_minimum r) ((1 - offset_reduction r) * rothberg_offset r)\<rparr>"

definition mutation_phase ::
  "RothbergInput \<Rightarrow> Rothberg \<Rightarrow> Incumbent \<Rightarrow> error + (Rothberg \<times> Incumbent \<times> SubmipRequest list)" where
  "mutation_phase env r inc =
     (if length (entries (rothberg_pool r)) \<ge> 1 then
        bind_err (mutations env (num_mutations r) 0 (r, inc, []))
          (\<lambda>(r', inc', trace). Inr (update_offset r', inc', trace))
      else Inr (r, inc, []))"

text \<open>Recombination. In consensus mode a variable is fixed when every entry after the
  first is closer than the threshold to the rounded value of the first entry.\<close>

datatype Mode = Consensus | Pairwise nat nat

fun all_agree :: "real \<Rightarrow> Entry list \<Rightarrow> nat \<Rightarrow> error + bool" where
  "all_agree v [] idx = Inr True"
| "all_agree v (e # es) idx =
     bind_err (nth_err (entry_solution e) idx)
       (\<lambda>x. if \<bar>v - x\<bar> \<ge> THRESHOLD then Inr False else all_agree v es idx)"

fun build_consensus ::
  "Entry list \<Rightarrow> (real \<times> real) list \<Rightarrow> nat list \<Rightarrow> (real \<times> real) list \<Rightarrow> error + (real \<times> real) list" where
  "build_consensus es pb [] sb = Inr sb"
| "build_consensus es pb (idx # rest) sb =
     bind_err (nth_err es 0) (\<lambda>first.
     bind_err (nth_err (entry_solution first) idx) (\<lambda>x.
     bind_err (all_agree (rounded x) (tl es) idx) (\<lambda>fix.
     bind_err
       (if fix then set_bounds sb idx (rounded x, rounded x)
        else bind_err (nth_err pb idx) (set_bounds sb idx))
       (build_consensus es pb rest))))"

fun build_pairwise ::
  "real list \<Rightarrow> real list \<Rightarrow> (real \<times> real) list \<Rightarrow> nat list \<Rightarrow> (real \<times> real) list \<Rightarrow>
   error + (real \<times> real) list" where
  "build_pairwise s1 s2 pb [] sb = Inr sb"
| "build_pairwise s1 s2 pb (idx # rest) sb =
     bind_err (nth_err s1 idx) (\<lambda>x1.
     bind_err (nth_err s2 idx) (\<lambda>x2.
     bind_err
       (if \<bar>x1 - x2\<bar> < THRESHOLD then set_bounds sb idx (rounded x1, rounded x1)
        else bind_err (nth_err pb idx) (set_bounds sb idx))
       (build_pairwise s1 s2 pb rest)))"

text \<open>The sub-MIP of iteration \<open>i\<close>: its mode, its bounds and its start solution.\<close>

definition build_recombination ::
  "nat \<Rightarrow> nat \<Rightarrow> RecombinationInput \<Rightarrow> Rothberg \<Rightarrow> error + (Mode \<times> (real \<times> real) list \<times> real list)" where
  "build_recombination consider_all i e r =
     (let es = entries (rothberg_pool r) in
      if i = consider_all then
        bind_err (build_consensus es (problem_bounds r) (binary_variables r) (submip_bounds r)) (\<lambda>sb.
        bind_err (nth_err es 0) (\<lambda>first. Inr (Consensus, sb, entry_solution first)))
      else
        bind_err (checked_mod (rec_rand1 e) (length es - 1)) (\<lambda>m.
        let idx2 = m + 1 in
        bind_err (checked_mod (rec_rand2 e) idx2) (\<lambda>idx1.
        bind_err (nth_err es idx1) (\<lambda>entry1.
        bind_err (nth_err es idx2) (\<lambda>entry2.
        bind_err (build_pairwise (entry_solution entry1) (entry_solution entry2)
                    (problem_bounds r) (binary_variables r) (submip_bounds r)) (\<lambda>sb.
        Inr (Pairwise idx1 idx2, sb, entry_solution entry1)))))))"

definition recombination_iteration ::
  "bool \<Rightarrow> real \<Rightarrow> nat \<Rightarrow> nat \<Rightarrow> RecombinationInput \<Rightarrow> Rothberg \<Rightarrow> Incumbent \<Rightarrow>
   error + (Rothberg \<times> Incumbent \<times> Mode \<times> SubmipRequest)" where
  "recombination_iteration has_timer tlimit consider_all i e r inc =
     bind_err (build_recombination consider_all i e r) (\<lambda>(mode, sb, start_sol).
     bind_err (harvest (rothberg_sense r) (rothberg_pool r) inc (rec_result e))
       (\<lambda>(pl, inc', improved).
          Inr (r\<lparr>submip_bounds := sb, rothberg_pool := pl\<rparr>, inc', mode,
               \<lparr>req_bounds = sb, req_mip_start = Some start_sol,
                req_abort = submip_abort has_timer tlimit (rothberg_nodes_unsuccessful r)\<rparr>)))"

fun recombinations ::
  "RothbergInput \<Rightarrow> nat \<Rightarrow> nat \<Rightarrow> nat \<Rightarrow> Rothberg \<times> Incumbent \<times> (Mode \<times> SubmipRequest) list \<Rightarrow>
   error + (Rothberg \<times> Incumbent \<times> (Mode \<times> SubmipRequest) list)" where
  "recombinations env consider_all 0 i s = Inr s"
| "recombinations env consider_all (Suc k) i (r, inc, trace) =
     (if time_is_up (in_has_timer env) (rec_clock (in_recombination env i)) (in_time_limit env)
      then Inr (r, inc, trace)
      else bind_err
        (recombination_iteration (in_has_timer env) (in_time_limit env) consider_all i
           (in_recombination env i) r inc)
        (\<lambda>(r', inc', mode, rq). recombinations env consider_all k (Suc i) (r', inc', trace @ [(mode, rq)])))"

text \<open>\<^verbatim>\<open>random_() % num_recombinations_\<close> is evaluated before the loop, whatever the count.\<close>

definition recombination_phase ::
  "RothbergInput \<Rightarrow> Rothberg \<Rightarrow> Incumbent \<Rightarrow>
   error + (Rothberg \<times> Incumbent \<times> (Mode \<times> SubmipRequest) list)" where
  "recombination_phase env r inc =
     (if length (entries (rothberg_pool r)) \<ge> 2 then
        bind_err (checked_mod (in_consider_all env) (num_recombinations r)) (\<lambda>consider_all.
          recombinations env consider_all (num_recombinations r) 0 (r, inc, []))
      else Inr (r, inc, []))"

text \<open>
  A run: both phases, then \<^verbatim>\<open>setSolution\<close> with the incumbent the run ends with. The
  incumbent the run starts with, \<open>in_incumbent\<close>, pairs the objective that
  \<^verbatim>\<open>callback->getIncumbentObjValue()\<close> returns with the array that
  \<^verbatim>\<open>problem_->cplex.getValues\<close> fills. The result holds the object after the run, the
  incumbent reported and the requests of the two phases.
\<close>

record RothbergOutcome =
  out_rothberg :: Rothberg
  out_reported :: Incumbent
  out_mutation_requests :: "SubmipRequest list"
  out_recombination_requests :: "(Mode \<times> SubmipRequest) list"

definition Rothberg_run :: "Rothberg \<Rightarrow> RothbergInput \<Rightarrow> error + RothbergOutcome" where
  "Rothberg_run r env =
     bind_err (mutation_phase env r (in_incumbent env)) (\<lambda>(r1, inc1, mtrace).
     bind_err (recombination_phase env r1 inc1) (\<lambda>(r2, inc2, rtrace).
     Inr \<lparr>out_rothberg = r2, out_reported = inc2, out_mutation_requests = mtrace,
          out_recombination_requests = rtrace\<rparr>))"


section \<open>Maravilha (maravilha.cpp)\<close>

text \<open>
  Of the loop body, the model keeps the stop criterion, the solve, the pool update,
  the incumbent update and the update of the size window. The lines that build the
  sub-MIP (choice of a pool entry, bias, difference scores, weighted sampling) write
  only \<^verbatim>\<open>submip_.variables\<close>, \<^verbatim>\<open>differences_\<close> and \<^verbatim>\<open>variables_available_\<close>, which the
  lines kept do not read; they are left out. The MIP start is the incumbent.
\<close>

record Maravilha =
  maravilha_pool :: SolutionPool
  maravilha_sense :: Sense
  iterations :: int
  submip_min :: real
  submip_max :: real
  maravilha_offset :: real
  maravilha_nodes_unsuccessful :: "64 word"

record MaravilhaIteration =
  mar_clock :: real
  mar_result :: SubmipResult

record MaravilhaInput =
  min_has_timer :: bool
  min_time_limit :: real
  min_incumbent :: Incumbent
  min_iteration :: "nat \<Rightarrow> MaravilhaIteration"

definition adapt_window :: "Maravilha \<Rightarrow> bool \<Rightarrow> Status \<Rightarrow> Maravilha" where
  "adapt_window m submip_has_improved st =
     (if \<not> submip_has_improved then
        (if st = Optimal \<or> st = Infeasible
         then m\<lparr>submip_min := submip_min m + (submip_max m - submip_min m) * maravilha_offset m\<rparr>
         else m\<lparr>submip_max := submip_max m - (submip_max m - submip_min m) * maravilha_offset m\<rparr>)
      else m)"

definition Maravilha_iteration ::
  "bool \<Rightarrow> real \<Rightarrow> MaravilhaIteration \<Rightarrow> Maravilha \<Rightarrow> Incumbent \<Rightarrow>
   error + (Maravilha \<times> Incumbent \<times> SubmipRequest)" where
  "Maravilha_iteration has_timer tlimit e m inc =
     bind_err (harvest (maravilha_sense m) (maravilha_pool m) inc (mar_result e))
       (\<lambda>(pl, inc', submip_has_improved).
          Inr (adapt_window (m\<lparr>maravilha_pool := pl\<rparr>) submip_has_improved
                 (submip_status (mar_result e)),
               inc',
               \<lparr>req_bounds = [], req_mip_start = Some (incumbent_solution inc),
                req_abort = submip_abort has_timer tlimit (maravilha_nodes_unsuccessful m)\<rparr>))"

fun Maravilha_loop ::
  "MaravilhaInput \<Rightarrow> nat \<Rightarrow> nat \<Rightarrow> Maravilha \<times> Incumbent \<Rightarrow> error + (Maravilha \<times> Incumbent)" where
  "Maravilha_loop env 0 i s = Inr s"
| "Maravilha_loop env (Suc k) i (m, inc) =
     (if time_is_up (min_has_timer env) (mar_clock (min_iteration env i)) (min_time_limit env)
      then Inr (m, inc)
      else bind_err
        (Maravilha_iteration (min_has_timer env) (min_time_limit env) (min_iteration env i) m inc)
        (\<lambda>(m', inc', rq). Maravilha_loop env k (Suc i) (m', inc')))"

text \<open>A run reports an incumbent only when the pool is not empty.\<close>

definition Maravilha_run :: "Maravilha \<Rightarrow> MaravilhaInput \<Rightarrow> error + (Maravilha \<times> Incumbent option)" where
  "Maravilha_run m env =
     (if length (entries (maravilha_pool m)) > 0 then
        bind_err (Maravilha_loop env (nat (iterations m)) 0 (m, min_incumbent env))
          (\<lambda>(m', inc'). Inr (m', Some inc'))
      else Inr (m, None))"


section \<open>Predicates used to state the properties of the heuristics\<close>

text \<open>An objective that is at least as good as another one, by the sense.\<close>

definition not_worse :: "Sense \<Rightarrow> real \<Rightarrow> real \<Rightarrow> bool" where
  "not_worse sn a b = (if sn = Minimize then a \<le> b else b \<le> a)"

text \<open>The incumbent a run holds is the one it started with, or one whose objective is
  better than the starting objective by more than the tolerance.\<close>

definition no_regress :: "Sense \<Rightarrow> Incumbent \<Rightarrow> Incumbent \<Rightarrow> bool" where
  "no_regress sn start inc =
     (inc = start \<or> improves sn (incumbent_objective inc) (incumbent_objective start))"



section \<open>Example data\<close>

text \<open>
  A problem with one binary variable with bounds \<open>[0, 1]\<close>, pools holding one and two
  solutions, a solver that finds nothing and reports infeasibility, and a solver that
  returns the solution \<open>[0]\<close> with objective 7. The heuristic parameters are the defaults of
  the command line, with four mutations and no recombination.
\<close>

definition example_pool :: SolutionPool where
  "example_pool =
     \<lparr>pool_sense = Minimize, pool_max_size = 3, pool_sorted = True, next_age = - 2,
      entries = [\<lparr>entry_solution = [1], entry_value = 10, entry_age = - 1\<rparr>]\<rparr>"

definition two_entry_pool :: SolutionPool where
  "two_entry_pool =
     \<lparr>pool_sense = Minimize, pool_max_size = 3, pool_sorted = True, next_age = - 3,
      entries = [\<lparr>entry_solution = [0], entry_value = 8, entry_age = - 2\<rparr>,
                 \<lparr>entry_solution = [1], entry_value = 10, entry_age = - 1\<rparr>]\<rparr>"

definition no_solution :: SubmipResult where
  "no_solution =
     \<lparr>submip_found_solution = False, submip_status = Infeasible, submip_obj_value = 0,
      submip_values = []\<rparr>"

definition better_solution :: SubmipResult where
  "better_solution =
     \<lparr>submip_found_solution = True, submip_status = Optimal, submip_obj_value = 7,
      submip_values = [0]\<rparr>"

definition example_rothberg :: Rothberg where
  "example_rothberg =
     \<lparr>rothberg_pool = example_pool, problem_bounds = [(0, 1)], submip_bounds = [(0, 1)],
      rothberg_sense = Minimize, binary_variables = [0], num_recombinations = 0,
      num_mutations = 4, fixing_fraction = 1 / 2, rothberg_offset = 1 / 5,
      offset_reduction = 1 / 4, offset_minimum = 1 / 100, rothberg_nodes_unsuccessful = 1000\<rparr>"

definition example_input :: "SubmipResult \<Rightarrow> RothbergInput" where
  "example_input res =
     \<lparr>in_has_timer = False, in_time_limit = 100,
      in_incumbent = \<lparr>incumbent_objective = 10, incumbent_solution = [1]\<rparr>,
      in_mutation = (\<lambda>i. \<lparr>mut_clock = 0, mut_rand1 = 0, mut_rand2 = 0, mut_shuffle = [0],
                           mut_result = res\<rparr>),
      in_consider_all = 7,
      in_recombination = (\<lambda>i. \<lparr>rec_clock = 0, rec_rand1 = 0, rec_rand2 = 0, rec_result = res\<rparr>)\<rparr>"

definition example_maravilha :: Maravilha where
  "example_maravilha =
     \<lparr>maravilha_pool = example_pool, maravilha_sense = Minimize, iterations = 2,
      submip_min = 0, submip_max = 13 / 20, maravilha_offset = 9 / 20,
      maravilha_nodes_unsuccessful = 1000\<rparr>"

definition example_maravilha_input :: "SubmipResult \<Rightarrow> MaravilhaInput" where
  "example_maravilha_input res =
     \<lparr>min_has_timer = False, min_time_limit = 100,
      min_incumbent = \<lparr>incumbent_objective = 10, incumbent_solution = [1]\<rparr>,
      min_iteration = (\<lambda>i. \<lparr>mar_clock = 0, mar_result = res\<rparr>)\<rparr>"

section \<open>Properties of the solution pool\<close>

subsection \<open>The sort routine\<close>

lemma mset_unguarded_linear_insert:
  "mset (unguarded_linear_insert cmp v ps) = add_mset v (mset ps)"
  by (induction ps) auto

lemma mset_insertion_step: "mset (insertion_step cmp prefix v) = add_mset v (mset prefix)"
  by (auto simp: insertion_step_def mset_unguarded_linear_insert split: list.splits)

lemma mset_foldl_insertion_step:
  "mset (foldl (insertion_step cmp) acc xs) = mset acc + mset xs"
  by (induction xs arbitrary: acc) (auto simp: mset_insertion_step)

lemma mset_std_sort: "mset (std_sort cmp xs) = mset xs"
  by (simp add: std_sort_def mset_foldl_insertion_step)

lemma set_std_sort: "set (std_sort cmp xs) = set xs"
  using mset_std_sort [of cmp xs] by (metis set_mset_mset)

lemma length_std_sort: "length (std_sort cmp xs) = length xs"
  using mset_std_sort [of cmp xs] by (metis size_mset)







subsection \<open>The scan for similar entries and the size of the pool\<close>

lemma check_similarity_same_length:
  "length sol = length es \<Longrightarrow>
   check_similarity sol es = Inr (\<forall>j<length sol. \<bar>sol ! j - es ! j\<bar> \<le> SIMILARITY_THRESHOLD)"
proof (induction sol es rule: list_induct2)
  case Nil
  then show ?case by simp
next
  case (Cons s ss e es)
  then show ?case by (auto simp: All_less_Suc2)
qed

lemma spec_similar_check:
  "length sol = length es \<Longrightarrow> spec_similar sol es \<Longrightarrow> check_similarity sol es = Inr True"
  by (simp add: check_similarity_same_length spec_similar_def SIMILARITY_THRESHOLD_def)
     (meson less_eq_real_def)

lemma scan_pool_similar:
  "\<forall>e\<in>set es. length (entry_solution e) = length sol \<Longrightarrow>
   \<exists>e\<in>set es. check_similarity sol (entry_solution e) = Inr True \<Longrightarrow>
   scan_pool sn sol es i w = Inr None"
proof (induction es arbitrary: i w)
  case Nil
  then show ?case by simp
next
  case (Cons e es)
  have len: "length sol = length (entry_solution e)" using Cons.prems(1) by simp
  show ?case
  proof (cases "\<forall>j<length sol. \<bar>sol ! j - entry_solution e ! j\<bar> \<le> SIMILARITY_THRESHOLD")
    case True
    then show ?thesis using check_similarity_same_length [OF len] by simp
  next
    case False
    then have ne: "check_similarity sol (entry_solution e) = Inr False"
      using check_similarity_same_length [OF len] by simp
    then have "\<exists>e\<in>set es. check_similarity sol (entry_solution e) = Inr True"
      using Cons.prems(2) by auto
    then have "scan_pool sn sol es (Suc i)
        (if is_worse sn (entry_value e) (snd w) then (i, entry_value e) else w) = Inr None"
      using Cons.IH Cons.prems(1) by simp
    then show ?thesis using ne by simp
  qed
qed

lemma replace_entry_length: "replace_entry es k sol v ag = Inr es' \<Longrightarrow> length es' = length es"
  by (auto simp: replace_entry_def split: if_splits sum.splits)

lemma length_finish_insert:
  "length (entries (finish_insert p es)) = length es"
  by (simp add: finish_insert_def length_std_sort)

lemma max_size_finish_insert: "pool_max_size (finish_insert p es) = pool_max_size p"
  by (simp add: finish_insert_def)

lemma add_entry_length:
  assumes "add_entry p sol v = Inr (b, p')"
  shows "pool_max_size p' = pool_max_size p \<and>
    (if b \<and> length (entries p) < pool_max_size p
     then length (entries p') = Suc (length (entries p))
     else length (entries p') = length (entries p))"
  using assms
  by (auto simp: add_entry_def length_finish_insert max_size_finish_insert
      dest: replace_entry_length split: sum.splits option.splits if_splits prod.splits)

lemma add_entries_bound:
  "length (entries p) \<le> pool_max_size p \<Longrightarrow> add_entries p calls = Inr p' \<Longrightarrow>
   length (entries p') \<le> pool_max_size p' \<and> pool_max_size p' = pool_max_size p"
proof (induction calls arbitrary: p)
  case Nil
  then show ?case by simp
next
  case (Cons c cs)
  obtain sol v where c: "c = (sol, v)" by (cases c)
  from Cons.prems(2) c obtain b q where
    step: "add_entry p sol v = Inr (b, q)" and rest: "add_entries q cs = Inr p'"
    by (auto split: sum.splits)
  from add_entry_length [OF step] Cons.prems(1)
  have q: "pool_max_size q = pool_max_size p" "length (entries q) \<le> pool_max_size q"
    by (auto split: if_splits)
  from Cons.IH [OF q(2) rest] q(1) show ?case by simp
qed

text \<open>
  Claim C2. A pool made by the constructor with maximum size \<open>m\<close> never holds more than
  \<open>m\<close> entries, whatever sequence of \<^verbatim>\<open>add_entry\<close> calls it receives; a single call
  adds one entry only when it reports an insertion and the size was strictly below the
  maximum, and otherwise keeps the number of entries (an insertion into a full pool
  overwrites a slot).
\<close>

theorem pool_size_bounded:
  "(add_entries (new_pool sn m srt) calls = Inr p \<longrightarrow>
      length (entries p) \<le> pool_max_size p \<and> pool_max_size p = m) \<and>
   (add_entry q sol v = Inr (b, q') \<longrightarrow>
      pool_max_size q' = pool_max_size q \<and>
      (if b \<and> length (entries q) < pool_max_size q
       then length (entries q') = Suc (length (entries q))
       else length (entries q') = length (entries q)))"
proof (intro conjI impI)
  assume a: "add_entries (new_pool sn m srt) calls = Inr p"
  have "length (entries (new_pool sn m srt)) \<le> pool_max_size (new_pool sn m srt)"
    by (simp add: new_pool_def)
  from add_entries_bound [OF this a]
  show "length (entries p) \<le> pool_max_size p" "pool_max_size p = m"
    by (simp_all add: new_pool_def)
next
  assume "add_entry q sol v = Inr (b, q')"
  from add_entry_length [OF this]
  show "pool_max_size q' = pool_max_size q"
    "if b \<and> length (entries q) < pool_max_size q
       then length (entries q') = Suc (length (entries q))
       else length (entries q') = length (entries q)"
    by simp_all
qed

theorem pool_size_bounded_witness:
  "add_entries (new_pool Minimize 3 True) [([0], 10), ([1], 8), ([2], 12), ([3], 5)] =
     Inr \<lparr>pool_sense = Minimize, pool_max_size = 3, pool_sorted = True, next_age = - 5,
       entries = [\<lparr>entry_solution = [3], entry_value = 5, entry_age = - 4\<rparr>,
                  \<lparr>entry_solution = [1], entry_value = 8, entry_age = - 2\<rparr>,
                  \<lparr>entry_solution = [0], entry_value = 10, entry_age = - 1\<rparr>]\<rparr> \<and>
   add_entry (new_pool Minimize 3 True) [0] 10 =
     Inr (True, \<lparr>pool_sense = Minimize, pool_max_size = 3, pool_sorted = True, next_age = - 2,
       entries = [\<lparr>entry_solution = [0], entry_value = 10, entry_age = - 1\<rparr>]\<rparr>) \<and>
   length (entries \<lparr>pool_sense = Minimize, pool_max_size = 3, pool_sorted = True, next_age = - 5,
       entries = [\<lparr>entry_solution = [3], entry_value = 5, entry_age = - 4\<rparr>,
                  \<lparr>entry_solution = [1], entry_value = 8, entry_age = - 2\<rparr>,
                  \<lparr>entry_solution = [0], entry_value = 10, entry_age = - 1\<rparr>]\<rparr>) \<le> 3"
proof -
  let ?P = "\<lparr>pool_sense = Minimize, pool_max_size = 3, pool_sorted = True, next_age = - 5,
       entries = [\<lparr>entry_solution = [3], entry_value = 5, entry_age = - 4\<rparr>,
                  \<lparr>entry_solution = [1], entry_value = 8, entry_age = - 2\<rparr>,
                  \<lparr>entry_solution = [0], entry_value = 10, entry_age = - 1\<rparr>]\<rparr>"
  let ?Q = "\<lparr>pool_sense = Minimize, pool_max_size = 3, pool_sorted = True, next_age = - 2,
       entries = [\<lparr>entry_solution = [0], entry_value = 10, entry_age = - 1\<rparr>]\<rparr>"
  have seq: "add_entries (new_pool Minimize 3 True) [([0], 10), ([1], 8), ([2], 12), ([3], 5)] =
      Inr ?P"
    by (simp add: new_pool_def add_entry_def worst_init_def is_worse_def is_better_def
        replace_entry_def overwrite_solution_def DBL_MAX_def
        finish_insert_def std_sort_def insertion_step_def entry_less_def SIMILARITY_THRESHOLD_def)
  have one: "add_entry (new_pool Minimize 3 True) [0] 10 = Inr (True, ?Q)"
    by (simp add: new_pool_def add_entry_def worst_init_def finish_insert_def std_sort_def
        insertion_step_def)
  from pool_size_bounded [of Minimize 3 True "[([0], 10), ([1], 8), ([2], 12), ([3], 5)]" ?P
      "new_pool Minimize 3 True" "[0]" 10 True ?Q] seq one
  show ?thesis by simp
qed

text \<open>
  Claim C3. When the stored solutions have the candidate's dimension and some stored
  entry is similar to the candidate (every coordinate closer than \<open>10\<^sup>-\<^sup>5\<close>), \<^verbatim>\<open>add_entry\<close>
  returns false and the pool it leaves is the pool it received, for every candidate
  objective \<open>v\<close>: the objective is not looked at.
\<close>

theorem similar_rejected:
  assumes "same_dimension p sol"
    and "\<exists>e\<in>set (entries p). spec_similar sol (entry_solution e)"
  shows "add_entry p sol v = Inr (False, p)"
proof -
  have dims: "\<forall>e\<in>set (entries p). length (entry_solution e) = length sol"
    using assms(1) by (simp add: same_dimension_def)
  have "\<exists>e\<in>set (entries p). check_similarity sol (entry_solution e) = Inr True"
    using assms(2) dims spec_similar_check by metis
  with dims have "scan_pool (pool_sense p) sol (entries p) 0 (0, worst_init (pool_sense p)) = Inr None"
    by (rule scan_pool_similar)
  then show ?thesis by (simp add: add_entry_def)
qed

theorem similar_rejected_witness:
  "same_dimension \<lparr>pool_sense = Minimize, pool_max_size = 3, pool_sorted = True, next_age = - 2,
       entries = [\<lparr>entry_solution = [0], entry_value = 10, entry_age = - 1\<rparr>]\<rparr> [1 / 1000000] \<and>
   spec_similar [1 / 1000000] [0] \<and>
   add_entry \<lparr>pool_sense = Minimize, pool_max_size = 3, pool_sorted = True, next_age = - 2,
       entries = [\<lparr>entry_solution = [0], entry_value = 10, entry_age = - 1\<rparr>]\<rparr> [1 / 1000000] 5 =
     Inr (False, \<lparr>pool_sense = Minimize, pool_max_size = 3, pool_sorted = True, next_age = - 2,
       entries = [\<lparr>entry_solution = [0], entry_value = 10, entry_age = - 1\<rparr>]\<rparr>)"
proof -
  let ?P = "\<lparr>pool_sense = Minimize, pool_max_size = 3, pool_sorted = True, next_age = - 2,
       entries = [\<lparr>entry_solution = [0], entry_value = 10, entry_age = - 1\<rparr>]\<rparr>"
  have dims: "same_dimension ?P [1 / 1000000]"
    by (simp add: same_dimension_def)
  have sim: "spec_similar [1 / 1000000] [0]"
    by (simp add: spec_similar_def)
  then have ex: "\<exists>e\<in>set (entries ?P). spec_similar [1 / 1000000] (entry_solution e)"
    by simp
  from similar_rejected [OF dims ex, of 5] dims sim show ?thesis by simp
qed

subsection \<open>Replacement of the worst entry\<close>

lemma differs_check:
  "length sol = length es \<Longrightarrow> differs sol es \<Longrightarrow> check_similarity sol es = Inr False"
  by (auto simp: check_similarity_same_length differs_def not_le)

lemma scan_pool_track:
  assumes "\<forall>e\<in>set es. check_similarity sol (entry_solution e) = Inr False"
  shows "\<exists>k x. scan_pool sn sol es i w = Inr (Some (k, x)) \<and>
     \<not> is_worse sn (snd w) x \<and> (\<forall>e\<in>set es. \<not> is_worse sn (entry_value e) x) \<and>
     ((k, x) = w \<or> (i \<le> k \<and> k < i + length es \<and> entry_value (es ! (k - i)) = x))"
  using assms
proof (induction es arbitrary: i w)
  case Nil
  then show ?case by (cases w) (simp add: is_worse_def)
next
  case (Cons e es)
  define w' where "w' = (if is_worse sn (entry_value e) (snd w) then (i, entry_value e) else w)"
  have rest: "\<forall>e\<in>set es. check_similarity sol (entry_solution e) = Inr False"
    using Cons.prems by simp
  from Cons.IH [OF rest, of "Suc i" w'] obtain k x where
    scan: "scan_pool sn sol es (Suc i) w' = Inr (Some (k, x))"
    and nw: "\<not> is_worse sn (snd w') x"
    and all: "\<forall>e\<in>set es. \<not> is_worse sn (entry_value e) x"
    and pos: "(k, x) = w' \<or> (Suc i \<le> k \<and> k < Suc i + length es \<and> entry_value (es ! (k - Suc i)) = x)"
    by blast
  have step: "scan_pool sn sol (e # es) i w = Inr (Some (k, x))"
    using Cons.prems scan by (simp add: w'_def)
  have a: "\<not> is_worse sn (snd w) x" "\<not> is_worse sn (entry_value e) x"
    using nw by (auto simp: w'_def is_worse_def split: if_splits)
  have b: "(k, x) = w \<or> (i \<le> k \<and> k < i + length (e # es) \<and> entry_value ((e # es) ! (k - i)) = x)"
  proof (cases "(k, x) = w'")
    case True
    then show ?thesis by (auto simp: w'_def split: if_splits)
  next
    case False
    with pos have p: "Suc i \<le> k" "k < Suc i + length es" "entry_value (es ! (k - Suc i)) = x"
      by auto
    then have "k - i = Suc (k - Suc i)" by simp
    then have "(e # es) ! (k - i) = es ! (k - Suc i)" by simp
    with p show ?thesis by auto
  qed
  from step a all b show ?case by auto
qed

lemma scan_pool_worst:
  assumes nosim: "\<forall>e\<in>set es. check_similarity sol (entry_solution e) = Inr False"
    and fin: "\<forall>e\<in>set es. finite_double (entry_value e)"
    and ne: "es \<noteq> []"
  shows "\<exists>k<length es. entry_value (es ! k) = worst_value sn es \<and>
     scan_pool sn sol es 0 (0, worst_init sn) = Inr (Some (k, worst_value sn es))"
proof -
  from scan_pool_track [OF nosim, of sn 0 "(0, worst_init sn)"] obtain k x where
    scan: "scan_pool sn sol es 0 (0, worst_init sn) = Inr (Some (k, x))"
    and all: "\<forall>e\<in>set es. \<not> is_worse sn (entry_value e) x"
    and nw: "\<not> is_worse sn (worst_init sn) x"
    and pos: "(k, x) = (0, worst_init sn) \<or> (k < length es \<and> entry_value (es ! k) = x)"
    by auto
  have at: "k < length es \<and> entry_value (es ! k) = x"
  proof (cases "(k, x) = (0, worst_init sn)")
    case True
    have "hd es \<in> set es" using ne by simp
    then have "finite_double (entry_value (hd es))" "\<not> is_worse sn (entry_value (hd es)) x"
      using fin all by auto
    then have "entry_value (hd es) = x"
      using True by (auto simp: finite_double_def is_worse_def worst_init_def split: if_splits)
    then show ?thesis using True ne by (simp add: hd_conv_nth)
  next
    case False
    then show ?thesis using pos by fastforce
  qed
  then have mem: "x \<in> set (map entry_value es)"
    by (metis length_map nth_map nth_mem)
  have "x = worst_value sn es"
  proof (cases sn)
    case Minimize
    have "Max (set (map entry_value es)) = x"
      using mem all Minimize by (intro Max_eqI) (auto simp: is_worse_def)
    then show ?thesis using Minimize by (simp add: worst_value_def)
  next
    case Maximize
    have "Min (set (map entry_value es)) = x"
      using mem all Maximize by (intro Min_eqI) (auto simp: is_worse_def)
    then show ?thesis using Maximize by (simp add: worst_value_def)
  qed
  with at scan show ?thesis by auto
qed

lemma worst_value_replace:
  assumes k: "k < length es" and better: "is_better sn v (worst_value sn es)"
    and es': "set es' = set (es[k := \<lparr>entry_solution = s, entry_value = v, entry_age = ag\<rparr>])"
  shows "\<not> is_worse sn (worst_value sn es') (worst_value sn es)"
proof -
  have ne: "es \<noteq> []" using k by auto
  then have ne': "set (map entry_value es') \<noteq> {}" using es' by auto
  have "set es' \<subseteq> insert \<lparr>entry_solution = s, entry_value = v, entry_age = ag\<rparr> (set es)"
    unfolding es' by (rule set_update_subset_insert)
  then have "entry_value ` set es' \<subseteq>
      entry_value ` insert \<lparr>entry_solution = s, entry_value = v, entry_age = ag\<rparr> (set es)"
    by (rule image_mono)
  then have sub: "set (map entry_value es') \<subseteq> insert v (set (map entry_value es))"
    by simp
  show ?thesis
  proof (cases sn)
    case Minimize
    have "\<forall>y\<in>set (map entry_value es'). y \<le> Max (set (map entry_value es))"
    proof
      fix y assume "y \<in> set (map entry_value es')"
      with sub have "y = v \<or> y \<in> set (map entry_value es)" by auto
      then show "y \<le> Max (set (map entry_value es))"
        using better Minimize by (auto simp: is_better_def worst_value_def)
    qed
    then have "Max (set (map entry_value es')) \<le> Max (set (map entry_value es))"
      using ne' by (simp add: Max_le_iff del: set_map)
    then show ?thesis using Minimize by (simp add: is_worse_def worst_value_def)
  next
    case Maximize
    have "\<forall>y\<in>set (map entry_value es'). Min (set (map entry_value es)) \<le> y"
    proof
      fix y assume "y \<in> set (map entry_value es')"
      with sub have "y = v \<or> y \<in> set (map entry_value es)" by auto
      then show "Min (set (map entry_value es)) \<le> y"
        using better Maximize by (auto simp: is_better_def worst_value_def)
    qed
    then have "Min (set (map entry_value es)) \<le> Min (set (map entry_value es'))"
      using ne' by (simp add: Min_ge_iff del: set_map)
    then show ?thesis using Maximize by (simp add: is_worse_def worst_value_def)
  qed
qed

lemma set_entries_finish_insert: "set (entries (finish_insert p es)) = set es"
  by (simp add: finish_insert_def set_std_sort)

text \<open>
  Claim C4, as amended. In a full, non-empty pool of finite objectives whose stored
  solutions have the candidate's dimension, when the candidate differs from every
  stored entry by more than \<open>10\<^sup>-\<^sup>5\<close> in some coordinate, \<^verbatim>\<open>add_entry\<close> inserts exactly when
  the candidate's objective is strictly better than the worst stored objective; it then
  overwrites one slot \<open>k\<close> holding that worst objective with the candidate's solution,
  objective and the current age key (before the pool is sorted again), and the worst
  objective of the resulting pool is not worse than the worst objective before.
\<close>

theorem full_pool_replaces_worst:
  assumes full: "length (entries p) = pool_max_size p"
    and ne: "entries p \<noteq> []"
    and dims: "same_dimension p sol"
    and nosim: "\<forall>e\<in>set (entries p). differs sol (entry_solution e)"
    and fin: "\<forall>e\<in>set (entries p). finite_double (entry_value e)"
  shows "\<exists>k<length (entries p).
      entry_value (entries p ! k) = worst_value (pool_sense p) (entries p) \<and>
      add_entry p sol v =
        (if is_better (pool_sense p) v (worst_value (pool_sense p) (entries p))
         then Inr (True, finish_insert p
           ((entries p)[k := \<lparr>entry_solution = sol, entry_value = v, entry_age = next_age p\<rparr>]))
         else Inr (False, p)) \<and>
      (is_better (pool_sense p) v (worst_value (pool_sense p) (entries p)) \<longrightarrow>
         \<not> is_worse (pool_sense p)
           (worst_value (pool_sense p) (entries (finish_insert p
             ((entries p)[k := \<lparr>entry_solution = sol, entry_value = v, entry_age = next_age p\<rparr>]))))
           (worst_value (pool_sense p) (entries p)))"
proof -
  have len: "\<forall>e\<in>set (entries p). length sol = length (entry_solution e)"
    using dims by (simp add: same_dimension_def)
  have "\<forall>e\<in>set (entries p). check_similarity sol (entry_solution e) = Inr False"
    using len nosim differs_check by blast
  from scan_pool_worst [OF this fin ne, of "pool_sense p"] obtain k where
    k: "k < length (entries p)"
    and kv: "entry_value (entries p ! k) = worst_value (pool_sense p) (entries p)"
    and scan: "scan_pool (pool_sense p) sol (entries p) 0 (0, worst_init (pool_sense p)) =
      Inr (Some (k, worst_value (pool_sense p) (entries p)))"
    by blast
  have "length sol = length (entry_solution (entries p ! k))"
    using len k by simp
  then have rep: "replace_entry (entries p) k sol v (next_age p) =
    Inr ((entries p)[k := \<lparr>entry_solution = sol, entry_value = v, entry_age = next_age p\<rparr>])"
    using k by (simp add: replace_entry_def overwrite_solution_def)
  have eq: "add_entry p sol v =
        (if is_better (pool_sense p) v (worst_value (pool_sense p) (entries p))
         then Inr (True, finish_insert p
           ((entries p)[k := \<lparr>entry_solution = sol, entry_value = v, entry_age = next_age p\<rparr>]))
         else Inr (False, p))"
    using scan rep full by (simp add: add_entry_def)
  have mono: "is_better (pool_sense p) v (worst_value (pool_sense p) (entries p)) \<longrightarrow>
         \<not> is_worse (pool_sense p)
           (worst_value (pool_sense p) (entries (finish_insert p
             ((entries p)[k := \<lparr>entry_solution = sol, entry_value = v, entry_age = next_age p\<rparr>]))))
           (worst_value (pool_sense p) (entries p))"
    using worst_value_replace [OF k _ set_entries_finish_insert] by blast
  from k kv eq mono show ?thesis by blast
qed

theorem full_pool_replaces_worst_witness:
  "\<exists>k<3.
     entry_value ([\<lparr>entry_solution = [1], entry_value = 8, entry_age = - 2\<rparr>,
                   \<lparr>entry_solution = [0], entry_value = 10, entry_age = - 1\<rparr>,
                   \<lparr>entry_solution = [2], entry_value = 12, entry_age = - 3\<rparr>] ! k) = 12 \<and>
     add_entry \<lparr>pool_sense = Minimize, pool_max_size = 3, pool_sorted = True, next_age = - 4,
       entries = [\<lparr>entry_solution = [1], entry_value = 8, entry_age = - 2\<rparr>,
                  \<lparr>entry_solution = [0], entry_value = 10, entry_age = - 1\<rparr>,
                  \<lparr>entry_solution = [2], entry_value = 12, entry_age = - 3\<rparr>]\<rparr> [3] 5 =
     Inr (True, finish_insert
       \<lparr>pool_sense = Minimize, pool_max_size = 3, pool_sorted = True, next_age = - 4,
         entries = [\<lparr>entry_solution = [1], entry_value = 8, entry_age = - 2\<rparr>,
                    \<lparr>entry_solution = [0], entry_value = 10, entry_age = - 1\<rparr>,
                    \<lparr>entry_solution = [2], entry_value = 12, entry_age = - 3\<rparr>]\<rparr>
       ([\<lparr>entry_solution = [1], entry_value = 8, entry_age = - 2\<rparr>,
         \<lparr>entry_solution = [0], entry_value = 10, entry_age = - 1\<rparr>,
         \<lparr>entry_solution = [2], entry_value = 12, entry_age = - 3\<rparr>]
        [k := \<lparr>entry_solution = [3], entry_value = 5, entry_age = - 4\<rparr>]))"
proof -
  let ?es = "[\<lparr>entry_solution = [1], entry_value = 8, entry_age = - 2\<rparr>,
              \<lparr>entry_solution = [0], entry_value = 10, entry_age = - 1\<rparr>,
              \<lparr>entry_solution = [2], entry_value = 12, entry_age = - 3 :: 64 word\<rparr>]"
  let ?P = "\<lparr>pool_sense = Minimize, pool_max_size = 3, pool_sorted = True, next_age = - 4,
       entries = ?es\<rparr>"
  have full: "length (entries ?P) = pool_max_size ?P" by simp
  have ne: "entries ?P \<noteq> []" by simp
  have dims: "same_dimension ?P [3]" by (simp add: same_dimension_def)
  have nosim: "\<forall>e\<in>set (entries ?P). differs [3] (entry_solution e)"
    by (simp add: differs_def SIMILARITY_THRESHOLD_def)
  have fin: "\<forall>e\<in>set (entries ?P). finite_double (entry_value e)"
    by (simp add: finite_double_def DBL_MAX_def)
  have worst: "worst_value (pool_sense ?P) (entries ?P) = 12" by (simp add: worst_value_def)
  have better: "is_better (pool_sense ?P) 5 12" by (simp add: is_better_def)
  from full_pool_replaces_worst [OF full ne dims nosim fin, of 5]
  show ?thesis unfolding worst using better
    by (auto simp del: list_update.simps simp add: numeral_3_eq_3)
qed

text \<open>
  The claim as it is worded fails on the boundary of the similarity test: the candidate
  \<open>[10\<^sup>-\<^sup>5]\<close> is at distance exactly \<open>10\<^sup>-\<^sup>5\<close> from the stored \<open>[0]\<close>, so it is not similar in
  the specification's sense, and its objective 5 is strictly better than the worst
  stored objective 10 of the full pool; the code still rejects it, because its test
  for a differing coordinate is \<^verbatim>\<open>> SIMILARITY_THRESHOLD\<close>. In the program the candidate
  coordinate and the threshold are the same double, the one written \<^verbatim>\<open>1e-5\<close>.
\<close>

theorem full_pool_boundary_counterexample:
  "length (entries \<lparr>pool_sense = Minimize, pool_max_size = 1, pool_sorted = True, next_age = - 2,
       entries = [\<lparr>entry_solution = [0], entry_value = 10, entry_age = - 1\<rparr>]\<rparr>) = 1 \<and>
   \<not> spec_similar [1 / 100000] [0] \<and>
   is_better Minimize 5 (worst_value Minimize [\<lparr>entry_solution = [0], entry_value = 10, entry_age = - 1\<rparr>]) \<and>
   add_entry \<lparr>pool_sense = Minimize, pool_max_size = 1, pool_sorted = True, next_age = - 2,
       entries = [\<lparr>entry_solution = [0], entry_value = 10, entry_age = - 1\<rparr>]\<rparr> [1 / 100000] 5 =
     Inr (False, \<lparr>pool_sense = Minimize, pool_max_size = 1, pool_sorted = True, next_age = - 2,
       entries = [\<lparr>entry_solution = [0], entry_value = 10, entry_age = - 1\<rparr>]\<rparr>)"
  by (simp add: spec_similar_def is_better_def worst_value_def add_entry_def
      SIMILARITY_THRESHOLD_def)

subsection \<open>Order of a sorted pool\<close>



lemma add_entry_inserted:
  assumes "add_entry p sol v = Inr (True, p')"
  shows "\<exists>es1. p' = finish_insert p es1 \<and>
     (es1 = entries p @ [\<lparr>entry_solution = sol, entry_value = v, entry_age = next_age p\<rparr>] \<or>
      (\<exists>k s. k < length (entries p) \<and>
         es1 = (entries p)[k := \<lparr>entry_solution = s, entry_value = v, entry_age = next_age p\<rparr>]))"
  using assms
  by (auto simp: add_entry_def replace_entry_def
      split: sum.splits option.splits if_splits prod.splits)

lemma distinct_ages_inserted:
  assumes fresh: "ages_fresh p"
    and es1: "es1 = entries p @ [\<lparr>entry_solution = s, entry_value = v, entry_age = next_age p\<rparr>] \<or>
      (\<exists>k. k < length (entries p) \<and>
         es1 = (entries p)[k := \<lparr>entry_solution = s, entry_value = v, entry_age = next_age p\<rparr>])"
  shows "distinct (map entry_age es1)"
proof -
  have d: "distinct (map entry_age (entries p))"
    and notin: "next_age p \<notin> set (map entry_age (entries p))"
    using fresh by (auto simp: ages_fresh_def)
  from es1 show ?thesis
  proof
    assume "es1 = entries p @ [\<lparr>entry_solution = s, entry_value = v, entry_age = next_age p\<rparr>]"
    then show ?thesis using d notin by simp
  next
    assume "\<exists>k. k < length (entries p) \<and>
         es1 = (entries p)[k := \<lparr>entry_solution = s, entry_value = v, entry_age = next_age p\<rparr>]"
    then obtain k where
      "es1 = (entries p)[k := \<lparr>entry_solution = s, entry_value = v, entry_age = next_age p\<rparr>]"
      by blast
    then have "map entry_age es1 = (map entry_age (entries p))[k := next_age p]"
      by (simp add: map_update)
    then show ?thesis using d notin by (simp add: distinct_list_update)
  qed
qed

lemma distinct_ages_std_sort:
  "distinct (map entry_age (std_sort cmp es)) = distinct (map entry_age es)"
proof -
  have "mset (map entry_age (std_sort cmp es)) = mset (map entry_age es)"
    by (simp add: mset_std_sort)
  then show ?thesis by (rule mset_eq_imp_distinct_iff)
qed


lemma ages_fresh_add_entry:
  assumes fresh: "ages_fresh p" and nz: "next_age p \<noteq> 0"
    and step: "add_entry p sol v = Inr (b, p')"
  shows "ages_fresh p' \<and> unat (next_age p) - 1 \<le> unat (next_age p')"
proof (cases b)
  case False
  then have "p' = p" using step
    by (auto simp: add_entry_def split: sum.splits option.splits if_splits prod.splits)
  then show ?thesis using fresh by simp
next
  case True
  with step have "add_entry p sol v = Inr (True, p')" by simp
  from add_entry_inserted [OF this] obtain es1 s where
    p': "p' = finish_insert p es1"
    and es1: "es1 = entries p @ [\<lparr>entry_solution = s, entry_value = v, entry_age = next_age p\<rparr>] \<or>
      (\<exists>k. k < length (entries p) \<and>
         es1 = (entries p)[k := \<lparr>entry_solution = s, entry_value = v, entry_age = next_age p\<rparr>])"
    by blast
  have d: "distinct (map entry_age es1)"
    using fresh es1 by (rule distinct_ages_inserted)
  have lt: "next_age p - 1 < next_age p"
    using nz by (simp add: word_less_nat_alt unat_minus_one unat_gt_0)
  have sub: "set es1 \<subseteq> insert \<lparr>entry_solution = s, entry_value = v, entry_age = next_age p\<rparr>
      (set (entries p))"
    using es1
      set_update_subset_insert [of "entries p" _ "\<lparr>entry_solution = s, entry_value = v, entry_age = next_age p\<rparr>"]
    by auto
  have "\<forall>e\<in>set es1. next_age p - 1 < entry_age e"
  proof
    fix e assume "e \<in> set es1"
    with sub have "entry_age e = next_age p \<or> e \<in> set (entries p)" by auto
    then show "next_age p - 1 < entry_age e"
      using fresh lt by (auto simp: ages_fresh_def intro: less_trans)
  qed
  then have "ages_fresh p'"
    using d p' by (simp add: ages_fresh_def finish_insert_def set_std_sort distinct_ages_std_sort)
  moreover have "unat (next_age p') = unat (next_age p) - 1"
    using p' nz by (simp add: finish_insert_def unat_minus_one)
  ultimately show ?thesis by simp
qed

lemma ages_fresh_add_entries:
  "ages_fresh p \<Longrightarrow> length calls \<le> unat (next_age p) \<Longrightarrow> add_entries p calls = Inr p' \<Longrightarrow>
   ages_fresh p'"
proof (induction calls arbitrary: p)
  case Nil
  then show ?case by simp
next
  case (Cons c cs)
  obtain sol v where c: "c = (sol, v)" by (cases c)
  from Cons.prems(3) c obtain b q where
    step: "add_entry p sol v = Inr (b, q)" and rest: "add_entries q cs = Inr p'"
    by (auto split: sum.splits)
  have nz: "next_age p \<noteq> 0" using Cons.prems(2) by (auto simp: unat_eq_zero)
  from ages_fresh_add_entry [OF Cons.prems(1) nz step] Cons.prems(2)
  have "ages_fresh q" "length cs \<le> unat (next_age q)" by auto
  then show ?case using rest by (rule Cons.IH)
qed

lemma ages_fresh_new_pool: "ages_fresh (new_pool sn m srt)"
  by (simp add: ages_fresh_def new_pool_def)




section \<open>Properties of the abort callback\<close>

lemma AbortCallback_calls_aborted:
  "aborted cb \<Longrightarrow> AbortCallback_calls cb calls = (cb, False)"
  by (induction calls) (auto simp: AbortCallback_main_def)

lemma AbortCallback_main_stagnation:
  assumes "initialized cb" "\<not> aborted cb"
    and "\<not> (timer_set cb \<and> time_limit cb \<le> elapsed)" "\<not> nodes_limit cb \<le> nnodes"
  shows "AbortCallback_main cb elapsed nnodes obj =
     (if 1 / 100000 < obj_last_incumbent cb - obj
      then (cb\<lparr>obj_last_incumbent := obj, nodes_last_incumbent := nnodes\<rparr>, False)
      else if nodes_unsuccessful cb < nnodes - nodes_last_incumbent cb
      then (cb\<lparr>aborted := True\<rparr>, True)
      else (cb, False))"
  using assms by (auto simp: AbortCallback_main_def)

lemma AbortCallback_calls_increasing:
  assumes "initialized cb" "\<not> aborted cb"
    and "\<forall>(elapsed, nnodes, obj)\<in>set calls.
          \<not> (timer_set cb \<and> time_limit cb \<le> elapsed) \<and> \<not> nodes_limit cb \<le> nnodes \<and>
          obj_last_incumbent cb \<le> obj"
  shows "obj_last_incumbent (fst (AbortCallback_calls cb calls)) = obj_last_incumbent cb \<and>
    nodes_last_incumbent (fst (AbortCallback_calls cb calls)) = nodes_last_incumbent cb \<and>
    snd (AbortCallback_calls cb calls) =
      (\<exists>(elapsed, nnodes, obj)\<in>set calls. nodes_unsuccessful cb < nnodes - nodes_last_incumbent cb)"
  using assms(3)
proof (induction calls)
  case Nil
  then show ?case by simp
next
  case (Cons c cs)
  obtain elapsed nnodes obj where c: "c = (elapsed, nnodes, obj)" by (cases c)
  have ok: "\<not> (timer_set cb \<and> time_limit cb \<le> elapsed)" "\<not> nodes_limit cb \<le> nnodes"
    "obj_last_incumbent cb \<le> obj"
    using Cons.prems c by auto
  have step: "AbortCallback_main cb elapsed nnodes obj =
     (if nodes_unsuccessful cb < nnodes - nodes_last_incumbent cb
      then (cb\<lparr>aborted := True\<rparr>, True) else (cb, False))"
    using AbortCallback_main_stagnation [OF assms(1,2) ok(1,2), of obj] ok(3) by simp
  have ih: "obj_last_incumbent (fst (AbortCallback_calls cb cs)) = obj_last_incumbent cb \<and>
    nodes_last_incumbent (fst (AbortCallback_calls cb cs)) = nodes_last_incumbent cb \<and>
    snd (AbortCallback_calls cb cs) =
      (\<exists>(elapsed, nnodes, obj)\<in>set cs. nodes_unsuccessful cb < nnodes - nodes_last_incumbent cb)"
    using Cons by simp
  show ?case
  proof (cases "nodes_unsuccessful cb < nnodes - nodes_last_incumbent cb")
    case True
    then show ?thesis
      using step c by (simp add: AbortCallback_calls_aborted)
  next
    case False
    then show ?thesis
      using step c ih by (simp split: prod.splits)
  qed
qed

text \<open>
  Claim C10. Once the callback is initialised and neither the time limit nor the node
  limit stops the solve, a call moves the stagnation baseline exactly when the
  incumbent objective is more than \<open>10\<^sup>-\<^sup>5\<close> below the recorded one; the sense of the problem
  is no input of the callback. So over any calls whose incumbent is never below the
  recorded objective, as the improving incumbents of a maximisation problem are, the
  baseline stays where it was and the callback aborts as soon as the node count is
  more than \<open>nodes_unsuccessful\<close> above the baseline.
\<close>

theorem stagnation_ignores_sense:
  "(initialized cb \<and> \<not> aborted cb \<and> \<not> (timer_set cb \<and> time_limit cb \<le> elapsed) \<and>
      \<not> nodes_limit cb \<le> nnodes \<longrightarrow>
      AbortCallback_main cb elapsed nnodes obj =
       (if 1 / 100000 < obj_last_incumbent cb - obj
        then (cb\<lparr>obj_last_incumbent := obj, nodes_last_incumbent := nnodes\<rparr>, False)
        else if nodes_unsuccessful cb < nnodes - nodes_last_incumbent cb
        then (cb\<lparr>aborted := True\<rparr>, True)
        else (cb, False))) \<and>
   (initialized cb' \<and> \<not> aborted cb' \<and>
      (\<forall>(elapsed, nnodes, obj)\<in>set calls.
          \<not> (timer_set cb' \<and> time_limit cb' \<le> elapsed) \<and> \<not> nodes_limit cb' \<le> nnodes \<and>
          obj_last_incumbent cb' \<le> obj) \<longrightarrow>
      obj_last_incumbent (fst (AbortCallback_calls cb' calls)) = obj_last_incumbent cb' \<and>
      nodes_last_incumbent (fst (AbortCallback_calls cb' calls)) = nodes_last_incumbent cb' \<and>
      snd (AbortCallback_calls cb' calls) =
        (\<exists>(elapsed, nnodes, obj)\<in>set calls. nodes_unsuccessful cb' < nnodes - nodes_last_incumbent cb'))"
  using AbortCallback_main_stagnation [of cb elapsed nnodes obj]
    AbortCallback_calls_increasing [of cb' calls]
  by blast

theorem stagnation_ignores_sense_witness:
  "AbortCallback_calls (create_instance False 100 (- 1) 10) [(0, 0, 10), (1, 5, 20), (2, 11, 30)] =
     (\<lparr>timer_set = False, time_limit = 100, nodes_limit = - 1, nodes_unsuccessful = 10,
       initialized = True, aborted = True, obj_last_incumbent = 10, nodes_last_incumbent = 0\<rparr>, True)"
proof -
  let ?cb = "\<lparr>timer_set = False, time_limit = 100, nodes_limit = - 1, nodes_unsuccessful = 10,
       initialized = True, aborted = False, obj_last_incumbent = 10, nodes_last_incumbent = 0\<rparr>"
  have first: "AbortCallback_main (create_instance False 100 (- 1) 10) 0 0 10 = (?cb, False)"
    by (simp add: AbortCallback_main_def create_instance_def)
  have hyp: "initialized ?cb \<and> \<not> aborted ?cb \<and>
      (\<forall>(elapsed, nnodes, obj)\<in>set [(1, 5, 20), (2, 11, 30 :: real)].
          \<not> (timer_set ?cb \<and> time_limit ?cb \<le> elapsed) \<and> \<not> nodes_limit ?cb \<le> nnodes \<and>
          obj_last_incumbent ?cb \<le> obj)"
    by (simp add: word_le_nat_alt unsigned_minus_1_eq_mask mask_eq_exp_minus_1)
  have hyp1: "initialized ?cb \<and> \<not> aborted ?cb \<and> \<not> (timer_set ?cb \<and> time_limit ?cb \<le> 2) \<and>
      \<not> nodes_limit ?cb \<le> 11"
    by (simp add: word_le_nat_alt unsigned_minus_1_eq_mask mask_eq_exp_minus_1)
  from stagnation_ignores_sense [of ?cb 2 11 30 ?cb "[(1, 5, 20), (2, 11, 30)]"] hyp hyp1
  have "snd (AbortCallback_calls ?cb [(1, 5, 20), (2, 11, 30)])"
    and "AbortCallback_main ?cb 2 11 30 = (?cb\<lparr>aborted := True\<rparr>, True)"
    by simp_all
  then show ?thesis using first
    by (simp add: AbortCallback_main_def word_le_nat_alt unsigned_minus_1_eq_mask
        mask_eq_exp_minus_1)
qed

section \<open>Properties of the heuristics\<close>

text \<open>The equations that evaluate the model on the example data.\<close>

lemmas example_defs =
  example_pool_def two_entry_pool_def no_solution_def better_solution_def example_rothberg_def
  example_input_def example_maravilha_def example_maravilha_input_def

lemmas run_defs =
  Rothberg_run_def mutation_phase_def recombination_phase_def mutation_iteration_def
  recombination_iteration_def build_recombination_def select_seed_def checked_mod_def nth_err_def
  count_fixed_variables_def std_round_def set_bounds_def rounded_def harvest_def
  update_incumbent_def improves_def copy_solution_def THRESHOLD_def adapt_fixing_fraction_def
  submip_abort_def create_instance_def update_offset_def time_is_up_def Let_def
  Maravilha_run_def Maravilha_iteration_def adapt_window_def

lemmas pool_defs =
  add_entry_def worst_init_def is_worse_def is_better_def replace_entry_def
  overwrite_solution_def DBL_MAX_def finish_insert_def std_sort_def insertion_step_def
  entry_less_def SIMILARITY_THRESHOLD_def

lemma bind_err_Inr_iff: "bind_err m f = Inr y \<longleftrightarrow> (\<exists>x. m = Inr x \<and> f x = Inr y)"
  by (cases m) (simp_all add: bind_err_def)

lemma bind_err_simps [simp]: "bind_err (Inl e) f = Inl e" "bind_err (Inr x) f = f x"
  by (simp_all add: bind_err_def)

lemma improves_trans: "improves sn a b \<Longrightarrow> improves sn b c \<Longrightarrow> improves sn a c"
  by (auto simp: improves_def THRESHOLD_def)

lemma improves_not_worse: "improves sn a b \<Longrightarrow> not_worse sn a b"
  by (auto simp: improves_def not_worse_def THRESHOLD_def)

lemma no_regress_not_worse:
  "no_regress sn start inc \<Longrightarrow> not_worse sn (incumbent_objective inc) (incumbent_objective start)"
  by (auto simp: no_regress_def improves_not_worse) (simp add: not_worse_def)

lemma update_incumbent_result:
  assumes "update_incumbent sn inc res = Inr (inc', b)"
  shows "b = improves sn (submip_obj_value res) (incumbent_objective inc) \<and>
    (if b then incumbent_objective inc' = submip_obj_value res \<and>
               incumbent_solution inc' = take (length (incumbent_solution inc)) (submip_values res)
     else inc' = inc)"
  using assms
  by (auto simp: update_incumbent_def copy_solution_def bind_err_Inr_iff split: if_splits)

lemma harvest_result:
  assumes "harvest sn pl inc res = Inr (pl', inc', b)"
  shows "b = (submip_found_solution res \<and> improves sn (submip_obj_value res) (incumbent_objective inc)) \<and>
    (if b then incumbent_objective inc' = submip_obj_value res else inc' = inc)"
  using assms
  by (auto simp: harvest_def bind_err_Inr_iff split: if_splits dest!: update_incumbent_result)

lemma harvest_no_regress:
  assumes "harvest sn pl inc res = Inr (pl', inc', b)" and "no_regress sn start inc"
  shows "no_regress sn start inc'"
proof (cases b)
  case True
  with harvest_result [OF assms(1)] have
    imp: "improves sn (submip_obj_value res) (incumbent_objective inc)"
    and obj: "incumbent_objective inc' = submip_obj_value res"
    by auto
  from assms(2) have "improves sn (incumbent_objective inc') (incumbent_objective start)"
    unfolding no_regress_def using imp obj improves_trans by auto
  then show ?thesis by (simp add: no_regress_def)
next
  case False
  with harvest_result [OF assms(1)] assms(2) show ?thesis by simp
qed

lemma adapt_fixing_fraction_fields [simp]:
  "rothberg_sense (adapt_fixing_fraction r b st) = rothberg_sense r"
  "rothberg_offset (adapt_fixing_fraction r b st) = rothberg_offset r"
  "offset_reduction (adapt_fixing_fraction r b st) = offset_reduction r"
  "offset_minimum (adapt_fixing_fraction r b st) = offset_minimum r"
  "rothberg_nodes_unsuccessful (adapt_fixing_fraction r b st) = rothberg_nodes_unsuccessful r"
  "num_mutations (adapt_fixing_fraction r b st) = num_mutations r"
  "num_recombinations (adapt_fixing_fraction r b st) = num_recombinations r"
  by (simp_all add: adapt_fixing_fraction_def)

lemma adapt_fixing_fraction_value:
  "fixing_fraction (adapt_fixing_fraction r b st) =
      (if b then fixing_fraction r
       else if st = Optimal \<or> st = Infeasible
       then max 0 (fixing_fraction r - rothberg_offset r)
       else min 1 (fixing_fraction r + rothberg_offset r))"
  by (simp add: adapt_fixing_fraction_def)

lemma mutation_iteration_shape:
  assumes "mutation_iteration has_timer tlimit e r inc = Inr (r', inc', rq)"
  shows "\<exists>pl b sb. harvest (rothberg_sense r) (rothberg_pool r) inc (mut_result e) = Inr (pl, inc', b) \<and>
    r' = adapt_fixing_fraction
           (r\<lparr>binary_variables := mut_shuffle e, submip_bounds := sb, rothberg_pool := pl\<rparr>)
           b (submip_status (mut_result e)) \<and>
    rq = \<lparr>req_bounds = sb, req_mip_start = None,
          req_abort = submip_abort has_timer tlimit (rothberg_nodes_unsuccessful r)\<rparr>"
proof -
  from assms [unfolded mutation_iteration_def bind_err_Inr_iff] obtain sb x where
    h: "harvest (rothberg_sense r) (rothberg_pool r) inc (mut_result e) = Inr x"
    and fin: "(case x of (pl, inc', submip_has_improved) \<Rightarrow>
          Inr (adapt_fixing_fraction
                 (r\<lparr>binary_variables := mut_shuffle e, submip_bounds := sb, rothberg_pool := pl\<rparr>)
                 submip_has_improved (submip_status (mut_result e)),
               inc',
               \<lparr>req_bounds = sb, req_mip_start = None,
                req_abort = submip_abort has_timer tlimit (rothberg_nodes_unsuccessful r)\<rparr>)) =
      (Inr (r', inc', rq) :: error + (Rothberg \<times> Incumbent \<times> SubmipRequest))"
    by blast
  obtain pl inc1 b where x: "x = (pl, inc1, b)" by (cases x)
  from fin x have "inc1 = inc'"
    and "r' = adapt_fixing_fraction
           (r\<lparr>binary_variables := mut_shuffle e, submip_bounds := sb, rothberg_pool := pl\<rparr>)
           b (submip_status (mut_result e))"
    and "rq = \<lparr>req_bounds = sb, req_mip_start = None,
          req_abort = submip_abort has_timer tlimit (rothberg_nodes_unsuccessful r)\<rparr>"
    by simp_all
  with h x show ?thesis by blast
qed

lemma mutation_iteration_result:
  assumes "mutation_iteration has_timer tlimit e r inc = Inr (r', inc', rq)"
  shows "\<exists>pl b. harvest (rothberg_sense r) (rothberg_pool r) inc (mut_result e) = Inr (pl, inc', b) \<and>
    fixing_fraction r' =
      (if b then fixing_fraction r
       else if submip_status (mut_result e) = Optimal \<or> submip_status (mut_result e) = Infeasible
       then max 0 (fixing_fraction r - rothberg_offset r)
       else min 1 (fixing_fraction r + rothberg_offset r)) \<and>
    rothberg_sense r' = rothberg_sense r \<and> rothberg_offset r' = rothberg_offset r \<and>
    offset_reduction r' = offset_reduction r \<and> offset_minimum r' = offset_minimum r \<and>
    rothberg_nodes_unsuccessful r' = rothberg_nodes_unsuccessful r \<and>
    num_mutations r' = num_mutations r \<and> num_recombinations r' = num_recombinations r \<and>
    req_mip_start rq = None \<and>
    req_abort rq = create_instance has_timer tlimit (- 1) (rothberg_nodes_unsuccessful r)"
proof -
  from mutation_iteration_shape [OF assms] obtain pl b sb where
    h: "harvest (rothberg_sense r) (rothberg_pool r) inc (mut_result e) = Inr (pl, inc', b)"
    and r': "r' = adapt_fixing_fraction
           (r\<lparr>binary_variables := mut_shuffle e, submip_bounds := sb, rothberg_pool := pl\<rparr>)
           b (submip_status (mut_result e))"
    and rq: "rq = \<lparr>req_bounds = sb, req_mip_start = None,
          req_abort = submip_abort has_timer tlimit (rothberg_nodes_unsuccessful r)\<rparr>"
    by blast
  have "fixing_fraction r' =
      (if b then fixing_fraction r
       else if submip_status (mut_result e) = Optimal \<or> submip_status (mut_result e) = Infeasible
       then max 0 (fixing_fraction r - rothberg_offset r)
       else min 1 (fixing_fraction r + rothberg_offset r))"
    unfolding r' adapt_fixing_fraction_value by simp
  moreover have "rothberg_sense r' = rothberg_sense r \<and> rothberg_offset r' = rothberg_offset r \<and>
    offset_reduction r' = offset_reduction r \<and> offset_minimum r' = offset_minimum r \<and>
    rothberg_nodes_unsuccessful r' = rothberg_nodes_unsuccessful r \<and>
    num_mutations r' = num_mutations r \<and> num_recombinations r' = num_recombinations r"
    unfolding r' by simp
  moreover have "req_mip_start rq = None \<and>
    req_abort rq = create_instance has_timer tlimit (- 1) (rothberg_nodes_unsuccessful r)"
    unfolding rq by (simp add: submip_abort_def)
  ultimately show ?thesis using h by blast
qed

lemma mutations_invariant:
  assumes step: "\<And>i r inc r' inc' rq. P r inc \<Longrightarrow>
      mutation_iteration (in_has_timer env) (in_time_limit env) (in_mutation env i) r inc =
        Inr (r', inc', rq) \<Longrightarrow> P r' inc' \<and> Q rq"
  shows "P r inc \<Longrightarrow> mutations env k i (r, inc, trace) = Inr (r', inc', trace') \<Longrightarrow>
    P r' inc' \<and> (\<forall>rq\<in>set trace'. rq \<in> set trace \<or> Q rq)"
proof (induction k arbitrary: i r inc trace)
  case 0
  then show ?case by simp
next
  case (Suc k)
  show ?case
  proof (cases "time_is_up (in_has_timer env) (mut_clock (in_mutation env i)) (in_time_limit env)")
    case True
    with Suc.prems show ?thesis by simp
  next
    case False
    with Suc.prems(2) obtain r1 inc1 rq where
      it: "mutation_iteration (in_has_timer env) (in_time_limit env) (in_mutation env i) r inc =
        Inr (r1, inc1, rq)"
      and rest: "mutations env k (Suc i) (r1, inc1, trace @ [rq]) = Inr (r', inc', trace')"
      by (auto simp: bind_err_Inr_iff)
    from step [OF Suc.prems(1) it] have p1: "P r1 inc1" and q: "Q rq" by simp_all
    from Suc.IH [OF p1 rest] q show ?thesis by auto
  qed
qed

lemma recombination_iteration_shape:
  assumes "recombination_iteration has_timer tlimit consider_all i e r inc = Inr (r', inc', mode, rq)"
  shows "\<exists>pl b sb start_sol.
    build_recombination consider_all i e r = Inr (mode, sb, start_sol) \<and>
    harvest (rothberg_sense r) (rothberg_pool r) inc (rec_result e) = Inr (pl, inc', b) \<and>
    r' = r\<lparr>submip_bounds := sb, rothberg_pool := pl\<rparr> \<and>
    rq = \<lparr>req_bounds = sb, req_mip_start = Some start_sol,
          req_abort = submip_abort has_timer tlimit (rothberg_nodes_unsuccessful r)\<rparr>"
proof -
  from assms obtain y where b: "build_recombination consider_all i e r = Inr y"
    unfolding recombination_iteration_def bind_err_Inr_iff by blast
  obtain m sb st where y: "y = (m, sb, st)" by (cases y)
  from assms b y obtain x where
    h: "harvest (rothberg_sense r) (rothberg_pool r) inc (rec_result e) = Inr x"
    and fin: "(case x of (pl, inc', improved) \<Rightarrow>
          Inr (r\<lparr>submip_bounds := sb, rothberg_pool := pl\<rparr>, inc', m,
               \<lparr>req_bounds = sb, req_mip_start = Some st,
                req_abort = submip_abort has_timer tlimit (rothberg_nodes_unsuccessful r)\<rparr>)) =
         (Inr (r', inc', mode, rq) :: error + (Rothberg \<times> Incumbent \<times> Mode \<times> SubmipRequest))"
    by (auto simp: recombination_iteration_def bind_err_Inr_iff)
  obtain pl inc1 bb where x: "x = (pl, inc1, bb)" by (cases x)
  from fin x have "inc1 = inc'" "m = mode" "r' = r\<lparr>submip_bounds := sb, rothberg_pool := pl\<rparr>"
    "rq = \<lparr>req_bounds = sb, req_mip_start = Some st,
          req_abort = submip_abort has_timer tlimit (rothberg_nodes_unsuccessful r)\<rparr>"
    by simp_all
  with b y h x show ?thesis by blast
qed

lemma recombinations_invariant:
  assumes step: "\<And>i r inc r' inc' mode rq. P r inc \<Longrightarrow>
      recombination_iteration (in_has_timer env) (in_time_limit env) ca i
        (in_recombination env i) r inc = Inr (r', inc', mode, rq) \<Longrightarrow> P r' inc'"
  shows "P r inc \<Longrightarrow> recombinations env ca k i (r, inc, trace) = Inr (r', inc', trace') \<Longrightarrow>
    P r' inc'"
proof (induction k arbitrary: i r inc trace)
  case 0
  then show ?case by simp
next
  case (Suc k)
  show ?case
  proof (cases "time_is_up (in_has_timer env) (rec_clock (in_recombination env i)) (in_time_limit env)")
    case True
    with Suc.prems show ?thesis by simp
  next
    case False
    with Suc.prems(2) obtain r1 inc1 mode rq where
      it: "recombination_iteration (in_has_timer env) (in_time_limit env) ca i
        (in_recombination env i) r inc = Inr (r1, inc1, mode, rq)"
      and rest: "recombinations env ca k (Suc i) (r1, inc1, trace @ [(mode, rq)]) =
        Inr (r', inc', trace')"
      by (auto simp: bind_err_Inr_iff)
    from step [OF Suc.prems(1) it] have p1: "P r1 inc1" .
    from Suc.IH [OF p1 rest] show ?thesis .
  qed
qed

lemma adapt_window_fields [simp]:
  "maravilha_sense (adapt_window m b st) = maravilha_sense m"
  "maravilha_offset (adapt_window m b st) = maravilha_offset m"
  "iterations (adapt_window m b st) = iterations m"
  by (simp_all add: adapt_window_def)

lemma Maravilha_iteration_shape:
  assumes "Maravilha_iteration has_timer tlimit e m inc = Inr (m', inc', rq)"
  shows "\<exists>pl b. harvest (maravilha_sense m) (maravilha_pool m) inc (mar_result e) = Inr (pl, inc', b) \<and>
    m' = adapt_window (m\<lparr>maravilha_pool := pl\<rparr>) b (submip_status (mar_result e))"
proof -
  from assms [unfolded Maravilha_iteration_def bind_err_Inr_iff] obtain x where
    h: "harvest (maravilha_sense m) (maravilha_pool m) inc (mar_result e) = Inr x"
    and fin: "(case x of (pl, inc', submip_has_improved) \<Rightarrow>
          Inr (adapt_window (m\<lparr>maravilha_pool := pl\<rparr>) submip_has_improved
                 (submip_status (mar_result e)),
               inc',
               \<lparr>req_bounds = [], req_mip_start = Some (incumbent_solution inc),
                req_abort = submip_abort has_timer tlimit (maravilha_nodes_unsuccessful m)\<rparr>)) =
       (Inr (m', inc', rq) :: error + (Maravilha \<times> Incumbent \<times> SubmipRequest))"
    by blast
  obtain pl inc1 b where x: "x = (pl, inc1, b)" by (cases x)
  from fin x have "inc1 = inc'"
    "m' = adapt_window (m\<lparr>maravilha_pool := pl\<rparr>) b (submip_status (mar_result e))"
    by simp_all
  with h x show ?thesis by blast
qed

lemma Maravilha_loop_invariant:
  assumes step: "\<And>i m inc m' inc' rq. P m inc \<Longrightarrow>
      Maravilha_iteration (min_has_timer env) (min_time_limit env) (min_iteration env i) m inc =
        Inr (m', inc', rq) \<Longrightarrow> P m' inc'"
  shows "P m inc \<Longrightarrow> Maravilha_loop env k i (m, inc) = Inr (m', inc') \<Longrightarrow> P m' inc'"
proof (induction k arbitrary: i m inc)
  case 0
  then show ?case by simp
next
  case (Suc k)
  show ?case
  proof (cases "time_is_up (min_has_timer env) (mar_clock (min_iteration env i)) (min_time_limit env)")
    case True
    with Suc.prems show ?thesis by simp
  next
    case False
    with Suc.prems(2) obtain m1 inc1 rq where
      it: "Maravilha_iteration (min_has_timer env) (min_time_limit env) (min_iteration env i) m inc =
        Inr (m1, inc1, rq)"
      and rest: "Maravilha_loop env k (Suc i) (m1, inc1) = Inr (m', inc')"
      by (auto simp: bind_err_Inr_iff)
    from step [OF Suc.prems(1) it] have p1: "P m1 inc1" .
    from Suc.IH [OF p1 rest] show ?thesis .
  qed
qed

lemma mutation_iteration_no_regress:
  assumes "rothberg_sense r = sn \<and> no_regress sn start inc"
    and "mutation_iteration has_timer tlimit e r inc = Inr (r', inc', rq)"
  shows "(rothberg_sense r' = sn \<and> no_regress sn start inc') \<and> True"
proof -
  from mutation_iteration_result [OF assms(2)] obtain pl b where
    h: "harvest (rothberg_sense r) (rothberg_pool r) inc (mut_result e) = Inr (pl, inc', b)"
    and s: "rothberg_sense r' = rothberg_sense r"
    by blast
  from harvest_no_regress [OF h] assms(1) s show ?thesis by auto
qed

lemma mutation_phase_no_regress:
  assumes "mutation_phase env r inc = Inr (r', inc', trace)"
    and "no_regress (rothberg_sense r) start inc"
  shows "rothberg_sense r' = rothberg_sense r \<and> no_regress (rothberg_sense r) start inc'"
proof (cases "length (entries (rothberg_pool r)) \<ge> 1")
  case True
  with assms(1) obtain r1 where
    loop: "mutations env (num_mutations r) 0 (r, inc, []) = Inr (r1, inc', trace)"
    and r': "r' = update_offset r1"
    by (auto simp: mutation_phase_def bind_err_Inr_iff)
  have "(rothberg_sense r1 = rothberg_sense r \<and> no_regress (rothberg_sense r) start inc') \<and>
    (\<forall>rq\<in>set trace. rq \<in> set [] \<or> True)"
    by (rule mutations_invariant
        [where P = "\<lambda>r' inc'. rothberg_sense r' = rothberg_sense r \<and>
            no_regress (rothberg_sense r) start inc'" and Q = "\<lambda>rq. True",
          OF mutation_iteration_no_regress _ loop])
      (use assms(2) in auto)
  then show ?thesis using r' by (simp add: update_offset_def)
next
  case False
  with assms show ?thesis by (simp add: mutation_phase_def)
qed

lemma recombination_iteration_no_regress:
  assumes "rothberg_sense r = sn \<and> no_regress sn start inc"
    and "recombination_iteration has_timer tlimit ca i e r inc = Inr (r', inc', mode, rq)"
  shows "rothberg_sense r' = sn \<and> no_regress sn start inc'"
proof -
  from recombination_iteration_shape [OF assms(2)] obtain pl b sb where
    h: "harvest (rothberg_sense r) (rothberg_pool r) inc (rec_result e) = Inr (pl, inc', b)"
    and s: "r' = r\<lparr>submip_bounds := sb, rothberg_pool := pl\<rparr>"
    by blast
  from harvest_no_regress [OF h] assms(1) s show ?thesis by auto
qed

lemma recombination_phase_no_regress:
  assumes "recombination_phase env r inc = Inr (r', inc', trace)"
    and "no_regress (rothberg_sense r) start inc"
  shows "no_regress (rothberg_sense r) start inc'"
proof (cases "length (entries (rothberg_pool r)) \<ge> 2")
  case True
  with assms(1) obtain ca where
    loop: "recombinations env ca (num_recombinations r) 0 (r, inc, []) = Inr (r', inc', trace)"
    by (auto simp: recombination_phase_def bind_err_Inr_iff)
  have "rothberg_sense r' = rothberg_sense r \<and> no_regress (rothberg_sense r) start inc'"
    by (rule recombinations_invariant
        [where P = "\<lambda>r' inc'. rothberg_sense r' = rothberg_sense r \<and>
            no_regress (rothberg_sense r) start inc'",
          OF recombination_iteration_no_regress _ loop])
      (use assms(2) in auto)
  then show ?thesis by simp
next
  case False
  with assms show ?thesis by (simp add: recombination_phase_def)
qed

lemma Rothberg_run_no_regress:
  assumes "Rothberg_run r env = Inr out"
  shows "no_regress (rothberg_sense r) (in_incumbent env) (out_reported out)"
proof -
  from assms obtain r1 inc1 mtrace r2 inc2 rtrace where
    m: "mutation_phase env r (in_incumbent env) = Inr (r1, inc1, mtrace)"
    and rc: "recombination_phase env r1 inc1 = Inr (r2, inc2, rtrace)"
    and out: "out_reported out = inc2"
    by (auto simp: Rothberg_run_def bind_err_Inr_iff)
  have "no_regress (rothberg_sense r) (in_incumbent env) (in_incumbent env)"
    by (simp add: no_regress_def)
  from mutation_phase_no_regress [OF m this]
  have s: "rothberg_sense r1 = rothberg_sense r"
    and n: "no_regress (rothberg_sense r1) (in_incumbent env) inc1"
    by simp_all
  from recombination_phase_no_regress [OF rc n] s out show ?thesis by simp
qed

lemma Maravilha_iteration_no_regress:
  assumes "maravilha_sense m = sn \<and> no_regress sn start inc"
    and "Maravilha_iteration has_timer tlimit e m inc = Inr (m', inc', rq)"
  shows "maravilha_sense m' = sn \<and> no_regress sn start inc'"
proof -
  from Maravilha_iteration_shape [OF assms(2)] obtain pl b where
    h: "harvest (maravilha_sense m) (maravilha_pool m) inc (mar_result e) = Inr (pl, inc', b)"
    and s: "m' = adapt_window (m\<lparr>maravilha_pool := pl\<rparr>) b (submip_status (mar_result e))"
    by blast
  from harvest_no_regress [OF h] assms(1) s show ?thesis by auto
qed

lemma Maravilha_run_no_regress:
  assumes "Maravilha_run m env = Inr (m', Some rep)"
  shows "no_regress (maravilha_sense m) (min_incumbent env) rep"
proof -
  from assms have
    loop: "Maravilha_loop env (nat (iterations m)) 0 (m, min_incumbent env) = Inr (m', rep)"
    by (auto simp: Maravilha_run_def bind_err_Inr_iff split: if_splits)
  have "maravilha_sense m' = maravilha_sense m \<and>
      no_regress (maravilha_sense m) (min_incumbent env) rep"
    by (rule Maravilha_loop_invariant
        [where P = "\<lambda>m' inc'. maravilha_sense m' = maravilha_sense m \<and>
            no_regress (maravilha_sense m) (min_incumbent env) inc'",
          OF Maravilha_iteration_no_regress _ loop])
      (auto simp: no_regress_def)
  then show ?thesis by simp
qed

text \<open>
  Claim C1. The incumbent a Rothberg run reports, and the one a Maravilha run reports
  when its pool is not empty, has an objective that is not worse than the objective
  read at the start: it is the incumbent passed in, or its objective is better than
  the starting one by more than \<open>10\<^sup>-\<^sup>5\<close> in the direction of the sense. Each single
  update replaces the running incumbent exactly when the candidate's objective is
  better by more than \<open>10\<^sup>-\<^sup>5\<close>, and leaves it untouched otherwise.
\<close>

theorem incumbent_non_regression:
  "(Rothberg_run r env = Inr out \<longrightarrow>
      not_worse (rothberg_sense r) (incumbent_objective (out_reported out))
        (incumbent_objective (in_incumbent env)) \<and>
      (out_reported out = in_incumbent env \<or>
       improves (rothberg_sense r) (incumbent_objective (out_reported out))
         (incumbent_objective (in_incumbent env)))) \<and>
   (Maravilha_run m menv = Inr (m', Some rep) \<longrightarrow>
      not_worse (maravilha_sense m) (incumbent_objective rep)
        (incumbent_objective (min_incumbent menv)) \<and>
      (rep = min_incumbent menv \<or>
       improves (maravilha_sense m) (incumbent_objective rep)
         (incumbent_objective (min_incumbent menv)))) \<and>
   (update_incumbent sn inc res = Inr (inc', replaced) \<longrightarrow>
      replaced = improves sn (submip_obj_value res) (incumbent_objective inc) \<and>
      (if replaced then incumbent_objective inc' = submip_obj_value res else inc' = inc))"
proof (intro conjI impI)
  assume a: "Rothberg_run r env = Inr out"
  from Rothberg_run_no_regress [OF a]
  show "not_worse (rothberg_sense r) (incumbent_objective (out_reported out))
        (incumbent_objective (in_incumbent env))"
    by (rule no_regress_not_worse)
  from Rothberg_run_no_regress [OF a]
  show "out_reported out = in_incumbent env \<or>
       improves (rothberg_sense r) (incumbent_objective (out_reported out))
         (incumbent_objective (in_incumbent env))"
    by (simp add: no_regress_def)
next
  assume a: "Maravilha_run m menv = Inr (m', Some rep)"
  from Maravilha_run_no_regress [OF a]
  show "not_worse (maravilha_sense m) (incumbent_objective rep)
        (incumbent_objective (min_incumbent menv))"
    by (rule no_regress_not_worse)
  from Maravilha_run_no_regress [OF a]
  show "rep = min_incumbent menv \<or>
       improves (maravilha_sense m) (incumbent_objective rep)
         (incumbent_objective (min_incumbent menv))"
    by (simp add: no_regress_def)
next
  assume a: "update_incumbent sn inc res = Inr (inc', replaced)"
  from update_incumbent_result [OF a]
  show "replaced = improves sn (submip_obj_value res) (incumbent_objective inc)"
    "if replaced then incumbent_objective inc' = submip_obj_value res else inc' = inc"
    by (simp_all split: if_splits)
qed

theorem incumbent_non_regression_witness:
  "(\<exists>out. Rothberg_run (example_rothberg\<lparr>num_mutations := 1, num_recombinations := 1\<rparr>)
       (example_input better_solution) = Inr out \<and>
     incumbent_objective (out_reported out) = 7 \<and>
     not_worse Minimize (incumbent_objective (out_reported out)) 10) \<and>
   (\<exists>m' rep. Maravilha_run example_maravilha (example_maravilha_input no_solution) = Inr (m', Some rep) \<and>
     rep = \<lparr>incumbent_objective = 10, incumbent_solution = [1]\<rparr>) \<and>
   (\<exists>inc'. update_incumbent Minimize \<lparr>incumbent_objective = 10, incumbent_solution = [1]\<rparr>
       better_solution = Inr (inc', True) \<and> incumbent_objective inc' = 7)"
proof -
  obtain out where h1: "Rothberg_run (example_rothberg\<lparr>num_mutations := 1, num_recombinations := 1\<rparr>)
       (example_input better_solution) = Inr out"
    and o1: "incumbent_objective (out_reported out) = 7"
    by (simp add: example_defs run_defs pool_defs)
  obtain m' rep where h2: "Maravilha_run example_maravilha (example_maravilha_input no_solution) =
      Inr (m', Some rep)"
    and o2: "rep = \<lparr>incumbent_objective = 10, incumbent_solution = [1]\<rparr>"
    by (simp add: example_defs run_defs numeral_2_eq_2)
  obtain inc' where h3: "update_incumbent Minimize \<lparr>incumbent_objective = 10, incumbent_solution = [1]\<rparr>
       better_solution = Inr (inc', True)"
    by (simp add: example_defs run_defs)
  from incumbent_non_regression [of "example_rothberg\<lparr>num_mutations := 1, num_recombinations := 1\<rparr>"
      "example_input better_solution" out example_maravilha "example_maravilha_input no_solution"
      m' rep Minimize "\<lparr>incumbent_objective = 10, incumbent_solution = [1]\<rparr>" better_solution
      inc' True] h1 h2 h3
  have "not_worse Minimize (incumbent_objective (out_reported out)) 10"
    and "incumbent_objective inc' = 7"
    by (simp_all add: example_defs)
  with h1 h2 h3 o1 o2 show ?thesis by blast
qed

lemma mutation_iteration_offset:
  assumes "rothberg_offset r = a \<and> offset_reduction r = b \<and> offset_minimum r = c"
    and "mutation_iteration has_timer tlimit e r inc = Inr (r', inc', rq)"
  shows "(rothberg_offset r' = a \<and> offset_reduction r' = b \<and> offset_minimum r' = c) \<and> True"
  using mutation_iteration_result [OF assms(2)] assms(1) by auto

lemma mutation_phase_offset:
  assumes "length (entries (rothberg_pool r)) \<ge> 1"
    and "mutation_phase env r inc = Inr (r', inc', trace)"
  shows "rothberg_offset r' =
    max (offset_minimum r) ((1 - offset_reduction r) * rothberg_offset r)"
proof -
  from assms obtain r1 where
    loop: "mutations env (num_mutations r) 0 (r, inc, []) = Inr (r1, inc', trace)"
    and r': "r' = update_offset r1"
    by (auto simp: mutation_phase_def bind_err_Inr_iff)
  have "(rothberg_offset r1 = rothberg_offset r \<and> offset_reduction r1 = offset_reduction r \<and>
      offset_minimum r1 = offset_minimum r) \<and> (\<forall>rq\<in>set trace. rq \<in> set [] \<or> True)"
    by (rule mutations_invariant
        [where P = "\<lambda>r' inc'. rothberg_offset r' = rothberg_offset r \<and>
            offset_reduction r' = offset_reduction r \<and> offset_minimum r' = offset_minimum r"
          and Q = "\<lambda>rq. True", OF mutation_iteration_offset _ loop])
      auto
  then show ?thesis using r' by (simp add: update_offset_def)
qed

text \<open>
  Claim C7. A mutation iteration that did not improve the incumbent lowers the fixing
  fraction by the offset, not below 0, when the sub-MIP ended Optimal or Infeasible,
  and raises it by the offset, not above 1, otherwise; an improving iteration leaves it
  alone, and no iteration changes the offset. When the pool holds an entry, the
  mutation phase, however its loop ends, leaves the offset at
  \<open>max offset_minimum (offset * (1 - offset_reduction))\<close> of the values it started with.
\<close>

theorem fixing_fraction_adaptation:
  "(mutation_iteration has_timer tlimit e r inc = Inr (r', inc', rq) \<longrightarrow>
      fixing_fraction r' =
        (if submip_found_solution (mut_result e) \<and>
            improves (rothberg_sense r) (submip_obj_value (mut_result e)) (incumbent_objective inc)
         then fixing_fraction r
         else if submip_status (mut_result e) = Optimal \<or> submip_status (mut_result e) = Infeasible
         then max 0 (fixing_fraction r - rothberg_offset r)
         else min 1 (fixing_fraction r + rothberg_offset r)) \<and>
      rothberg_offset r' = rothberg_offset r) \<and>
   (length (entries (rothberg_pool r0)) \<ge> 1 \<and> mutation_phase env r0 inc0 = Inr (r1, inc1, trace) \<longrightarrow>
      rothberg_offset r1 =
        max (offset_minimum r0) (rothberg_offset r0 * (1 - offset_reduction r0)))"
proof (intro conjI impI)
  assume a: "mutation_iteration has_timer tlimit e r inc = Inr (r', inc', rq)"
  from mutation_iteration_result [OF a] obtain pl b where
    h: "harvest (rothberg_sense r) (rothberg_pool r) inc (mut_result e) = Inr (pl, inc', b)"
    and ff: "fixing_fraction r' =
      (if b then fixing_fraction r
       else if submip_status (mut_result e) = Optimal \<or> submip_status (mut_result e) = Infeasible
       then max 0 (fixing_fraction r - rothberg_offset r)
       else min 1 (fixing_fraction r + rothberg_offset r))"
    and off: "rothberg_offset r' = rothberg_offset r"
    by blast
  from harvest_result [OF h] have
    "b = (submip_found_solution (mut_result e) \<and>
        improves (rothberg_sense r) (submip_obj_value (mut_result e)) (incumbent_objective inc))"
    by simp
  with ff show "fixing_fraction r' =
        (if submip_found_solution (mut_result e) \<and>
            improves (rothberg_sense r) (submip_obj_value (mut_result e)) (incumbent_objective inc)
         then fixing_fraction r
         else if submip_status (mut_result e) = Optimal \<or> submip_status (mut_result e) = Infeasible
         then max 0 (fixing_fraction r - rothberg_offset r)
         else min 1 (fixing_fraction r + rothberg_offset r))"
    by simp
  from off show "rothberg_offset r' = rothberg_offset r" .
next
  assume "length (entries (rothberg_pool r0)) \<ge> 1 \<and>
    mutation_phase env r0 inc0 = Inr (r1, inc1, trace)"
  then show "rothberg_offset r1 =
        max (offset_minimum r0) (rothberg_offset r0 * (1 - offset_reduction r0))"
    using mutation_phase_offset [of r0 env inc0 r1 inc1 trace] by (simp add: mult.commute)
qed

theorem fixing_fraction_adaptation_witness:
  "(\<exists>r' inc' rq. mutation_iteration False 100 (in_mutation (example_input no_solution) 0)
       example_rothberg \<lparr>incumbent_objective = 10, incumbent_solution = [1]\<rparr> = Inr (r', inc', rq) \<and>
     fixing_fraction r' = 3 / 10) \<and>
   (\<exists>r1 inc1 trace. mutation_phase (example_input no_solution) example_rothberg
       \<lparr>incumbent_objective = 10, incumbent_solution = [1]\<rparr> = Inr (r1, inc1, trace) \<and>
     fixing_fraction r1 = 0 \<and> rothberg_offset r1 = 3 / 20)"
proof -
  obtain r' inc' rq where h1: "mutation_iteration False 100 (in_mutation (example_input no_solution) 0)
       example_rothberg \<lparr>incumbent_objective = 10, incumbent_solution = [1]\<rparr> = Inr (r', inc', rq)"
    by (simp add: example_defs run_defs)
  obtain r1 inc1 trace where h2: "mutation_phase (example_input no_solution) example_rothberg
       \<lparr>incumbent_objective = 10, incumbent_solution = [1]\<rparr> = Inr (r1, inc1, trace)"
    and ff: "fixing_fraction r1 = 0"
    by (simp add: example_defs run_defs eval_nat_numeral)
  have len: "length (entries (rothberg_pool example_rothberg)) \<ge> 1"
    by (simp add: example_defs)
  from fixing_fraction_adaptation [of False 100 "in_mutation (example_input no_solution) 0"
      example_rothberg "\<lparr>incumbent_objective = 10, incumbent_solution = [1]\<rparr>" r' inc' rq
      example_rothberg "example_input no_solution"
      "\<lparr>incumbent_objective = 10, incumbent_solution = [1]\<rparr>" r1 inc1 trace] h1 h2 len
  have "fixing_fraction r' = 3 / 10" and "rothberg_offset r1 = 3 / 20"
    by (simp_all add: example_defs)
  with h1 h2 ff show ?thesis by blast
qed

lemma mutation_iteration_request:
  assumes "rothberg_nodes_unsuccessful r = nu"
    and "mutation_iteration has_timer tlimit e r inc = Inr (r', inc', rq)"
  shows "rothberg_nodes_unsuccessful r' = nu \<and>
    (req_mip_start rq = None \<and> req_abort rq = create_instance has_timer tlimit (- 1) nu)"
  using mutation_iteration_result [OF assms(2)] assms(1) by auto

text \<open>
  Claim C9, as amended. Every sub-MIP solved in the mutation phase is solved without a
  MIP start, under an abort callback that carries the timer and time limit of the run,
  no node limit, and \<open>submip_nodes_unsuccessful\<close> as stagnation limit.
\<close>

theorem mutation_requests:
  assumes "mutation_phase env r inc = Inr (r', inc', trace)"
  shows "\<forall>rq\<in>set trace. req_mip_start rq = None \<and>
    req_abort rq = create_instance (in_has_timer env) (in_time_limit env) (- 1)
      (rothberg_nodes_unsuccessful r)"
proof (cases "length (entries (rothberg_pool r)) \<ge> 1")
  case True
  with assms obtain r1 where
    loop: "mutations env (num_mutations r) 0 (r, inc, []) = Inr (r1, inc', trace)"
    by (auto simp: mutation_phase_def bind_err_Inr_iff)
  have "rothberg_nodes_unsuccessful r1 = rothberg_nodes_unsuccessful r \<and>
    (\<forall>rq\<in>set trace. rq \<in> set [] \<or> (req_mip_start rq = None \<and>
       req_abort rq = create_instance (in_has_timer env) (in_time_limit env) (- 1)
         (rothberg_nodes_unsuccessful r)))"
    by (rule mutations_invariant
        [where P = "\<lambda>r' inc'. rothberg_nodes_unsuccessful r' = rothberg_nodes_unsuccessful r"
          and Q = "\<lambda>rq. req_mip_start rq = None \<and>
            req_abort rq = create_instance (in_has_timer env) (in_time_limit env) (- 1)
              (rothberg_nodes_unsuccessful r)",
          OF mutation_iteration_request _ loop])
      auto
  then show ?thesis by simp
next
  case False
  with assms show ?thesis by (simp add: mutation_phase_def)
qed

theorem mutation_requests_witness:
  "\<exists>r' inc' rq. mutation_phase (example_input no_solution) (example_rothberg\<lparr>num_mutations := 1\<rparr>)
       \<lparr>incumbent_objective = 10, incumbent_solution = [1]\<rparr> = Inr (r', inc', [rq]) \<and>
     req_mip_start rq = None \<and> req_abort rq = create_instance False 100 (- 1) 1000"
proof -
  obtain r' inc' rq where h: "mutation_phase (example_input no_solution)
       (example_rothberg\<lparr>num_mutations := 1\<rparr>)
       \<lparr>incumbent_objective = 10, incumbent_solution = [1]\<rparr> = Inr (r', inc', [rq])"
    by (simp add: example_defs run_defs)
  from mutation_requests [OF h]
  have "req_mip_start rq = None \<and> req_abort rq = create_instance False 100 (- 1) 1000"
    by (simp add: example_defs)
  with h show ?thesis by blast
qed

text \<open>
  The claim as it is worded asks for the current incumbent as warm start. In a run
  with one mutation the request handed to the solver has no MIP start, while the
  incumbent of the run is \<open>[1]\<close>.
\<close>

theorem mutation_warm_start_counterexample:
  "mutation_phase (example_input no_solution) (example_rothberg\<lparr>num_mutations := 1\<rparr>)
       \<lparr>incumbent_objective = 10, incumbent_solution = [1]\<rparr> =
     Inr (example_rothberg\<lparr>num_mutations := 1, submip_bounds := [(1, 1)],
            fixing_fraction := 3 / 10, rothberg_offset := 3 / 20\<rparr>,
          \<lparr>incumbent_objective = 10, incumbent_solution = [1]\<rparr>,
          [\<lparr>req_bounds = [(1, 1)], req_mip_start = None,
            req_abort = create_instance False 100 (- 1) 1000\<rparr>]) \<and>
   req_mip_start \<lparr>req_bounds = [(1, 1)], req_mip_start = None,
            req_abort = create_instance False 100 (- 1) 1000\<rparr> \<noteq> Some [1]"
  by (simp add: example_defs run_defs)

text \<open>
  Claim C6. With two or more entries in the pool and \<open>num_recombinations = 0\<close>, the
  recombination phase evaluates \<^verbatim>\<open>random_() % num_recombinations_\<close>, a remainder by zero,
  before its loop: the phase does not end with an empty list of iterations, it fails.
\<close>

theorem zero_recombinations_divide:
  assumes "length (entries (rothberg_pool r)) \<ge> 2" and "num_recombinations r = 0"
  shows "recombination_phase env r inc = Inl DivisionByZero"
  using assms by (simp add: recombination_phase_def checked_mod_def)

theorem zero_recombinations_divide_witness:
  "recombination_phase (example_input no_solution)
     (example_rothberg\<lparr>rothberg_pool := two_entry_pool\<rparr>)
     \<lparr>incumbent_objective = 10, incumbent_solution = [1]\<rparr> = Inl DivisionByZero \<and>
   Rothberg_run (example_rothberg\<lparr>rothberg_pool := two_entry_pool\<rparr>) (example_input no_solution) =
     Inl DivisionByZero"
proof -
  have a: "length (entries (rothberg_pool (example_rothberg\<lparr>rothberg_pool := two_entry_pool\<rparr>))) \<ge> 2"
    by (simp add: example_defs)
  have b: "num_recombinations (example_rothberg\<lparr>rothberg_pool := two_entry_pool\<rparr>) = 0"
    by (simp add: example_defs)
  have c: "Rothberg_run (example_rothberg\<lparr>rothberg_pool := two_entry_pool\<rparr>)
      (example_input no_solution) = Inl DivisionByZero"
    by (simp add: example_defs run_defs eval_nat_numeral)
  from zero_recombinations_divide [OF a b] c show ?thesis by simp
qed

lemma build_recombination_mode:
  assumes "build_recombination consider_all i e r = Inr (mode, sb, start_sol)"
  shows "(mode = Consensus) = (i = consider_all) \<and>
    (mode = Consensus \<longrightarrow> nth_err (entries (rothberg_pool r)) 0 = Inr \<lparr>entry_solution = start_sol,
       entry_value = entry_value (entries (rothberg_pool r) ! 0),
       entry_age = entry_age (entries (rothberg_pool r) ! 0)\<rparr>)"
  using assms
  by (auto simp: build_recombination_def Let_def bind_err_Inr_iff nth_err_def split: if_splits)

lemma recombinations_modes:
  "recombinations env ca k i (r, inc, trace) = Inr (r', inc', trace') \<Longrightarrow>
   length trace = i \<Longrightarrow> \<forall>j<length trace. (fst (trace ! j) = Consensus) = (j = ca) \<Longrightarrow>
   \<forall>j<length trace'. (fst (trace' ! j) = Consensus) = (j = ca)"
proof (induction k arbitrary: i r inc trace)
  case 0
  then show ?case by simp
next
  case (Suc k)
  show ?case
  proof (cases "time_is_up (in_has_timer env) (rec_clock (in_recombination env i)) (in_time_limit env)")
    case True
    with Suc.prems show ?thesis by simp
  next
    case False
    with Suc.prems(1) obtain r1 inc1 mode rq where
      it: "recombination_iteration (in_has_timer env) (in_time_limit env) ca i
        (in_recombination env i) r inc = Inr (r1, inc1, mode, rq)"
      and rest: "recombinations env ca k (Suc i) (r1, inc1, trace @ [(mode, rq)]) =
        Inr (r', inc', trace')"
      by (auto simp: bind_err_Inr_iff)
    from recombination_iteration_shape [OF it] obtain sb st where
      "build_recombination ca i (in_recombination env i) r = Inr (mode, sb, st)"
      by blast
    from build_recombination_mode [OF this] have m: "(mode = Consensus) = (i = ca)" by simp
    have len: "length (trace @ [(mode, rq)]) = Suc i" using Suc.prems(2) by simp
    have "\<forall>j<length (trace @ [(mode, rq)]).
        (fst ((trace @ [(mode, rq)]) ! j) = Consensus) = (j = ca)"
      using Suc.prems(2,3) m by (auto simp: nth_append less_Suc_eq)
    from Suc.IH [OF rest len this] show ?thesis .
  qed
qed

lemma recombination_phase_modes:
  assumes "recombination_phase env r inc = Inr (r', inc', trace)"
  shows "\<forall>j<length trace.
    (fst (trace ! j) = Consensus) = (j = in_consider_all env mod num_recombinations r)"
proof (cases "length (entries (rothberg_pool r)) \<ge> 2")
  case True
  with assms have
    loop: "recombinations env (in_consider_all env mod num_recombinations r)
      (num_recombinations r) 0 (r, inc, []) = Inr (r', inc', trace)"
    by (auto simp: recombination_phase_def bind_err_Inr_iff checked_mod_def split: if_splits)
  from recombinations_modes [OF loop] show ?thesis by simp
next
  case False
  with assms show ?thesis by (simp add: recombination_phase_def)
qed













end
